theory Spec2Isabelle
  imports Complex_Main "HOL-Library.Sublist"
begin

section \<open>Strings\<close>

text \<open>
  A Python \<open>str\<close> is a sequence of code points. The model reads a \<^typ>\<open>char\<close> as one code
  point in the range U+0000 to U+00FF (Latin-1), so \<open>length\<close> counts what Python's \<open>len\<close>
  counts: the word cafe with an acute accent is four characters, the last one \<open>CHR 0xE9\<close>. On that range
  \<open>str.isspace\<close> and the pattern \<open>\s\<close> accept the same twelve code points, \<open>\d\<close> accepts
  the ten ASCII digits, and \<open>str.lower\<close> adds 32 to the capital letters and leaves the rest.
\<close>

definition isspace :: "char \<Rightarrow> bool" where
  "isspace c = (let n = (of_char c :: nat)
                in (9 \<le> n \<and> n \<le> 13) \<or> (28 \<le> n \<and> n \<le> 32) \<or> n = 133 \<or> n = 160)"

definition isdigit :: "char \<Rightarrow> bool" where
  "isdigit c = (48 \<le> (of_char c :: nat) \<and> (of_char c :: nat) \<le> 57)"

definition lower_c :: "char \<Rightarrow> char" where
  "lower_c c = (let n = (of_char c :: nat)
                in if (65 \<le> n \<and> n \<le> 90) \<or> (192 \<le> n \<and> n \<le> 222 \<and> n \<noteq> 215)
                   then char_of (n + 32) else c)"

definition upper_c :: "char \<Rightarrow> char" where
  \<comment> \<open>the three small letters that have no capital on the range stay as they are\<close>
  "upper_c c = (let n = (of_char c :: nat)
                in if (97 \<le> n \<and> n \<le> 122) \<or> (224 \<le> n \<and> n \<le> 254 \<and> n \<noteq> 247)
                   then char_of (n - 32) else c)"

definition lower :: "string \<Rightarrow> string" where
  "lower s = map lower_c s"

definition strip :: "string \<Rightarrow> string" where
  "strip s = rev (dropWhile isspace (rev (dropWhile isspace s)))"

text \<open>\<open>sub in s\<close>\<close>

fun contains :: "string \<Rightarrow> string \<Rightarrow> bool" where
  "contains sub [] = (sub = [])"
| "contains sub (c # cs) = (prefix sub (c # cs) \<or> contains sub cs)"

text \<open>\<open>s.split(d)\<close> for a separator of one character\<close>

fun split_on :: "char \<Rightarrow> string \<Rightarrow> string list" where
  "split_on d [] = [[]]"
| "split_on d (c # cs) =
     (if c = d then [] # split_on d cs
      else (case split_on d cs of [] \<Rightarrow> [[c]] | p # ps \<Rightarrow> (c # p) # ps))"

text \<open>\<open>s.split()\<close>: the maximal runs of characters that are not white space\<close>

fun split_ws :: "string \<Rightarrow> string list" where
  "split_ws [] = []"
| "split_ws (c # cs) =
     (if isspace c then split_ws cs
      else (case cs of
              [] \<Rightarrow> [[c]]
            | d # _ \<Rightarrow> if isspace d then [c] # split_ws cs
                      else (case split_ws cs of [] \<Rightarrow> [[c]] | w # ws \<Rightarrow> (c # w) # ws)))"

text \<open>\<open>s.replace(a, b)\<close> for single characters, and \<open>sep.join(parts)\<close>\<close>

definition replace_c :: "char \<Rightarrow> char \<Rightarrow> string \<Rightarrow> string" where
  "replace_c a b s = map (\<lambda>c. if c = a then b else c) s"

fun join :: "string \<Rightarrow> string list \<Rightarrow> string" where
  "join sep [] = []"
| "join sep [p] = p"
| "join sep (p # q # ps) = p @ sep @ join sep (q # ps)"

text \<open>\<open>s.replace(old, '')\<close>: every occurrence of \<open>old\<close>, left to right, is left out\<close>

fun remove_all :: "string \<Rightarrow> nat \<Rightarrow> string \<Rightarrow> string" where
  "remove_all old skip [] = []"
| "remove_all old skip (c # cs) =
     (if 0 < skip then remove_all old (skip - 1) cs
      else if old \<noteq> [] \<and> prefix old (c # cs) then remove_all old (length old - 1) cs
      else c # remove_all old 0 cs)"

section \<open>Regular expressions\<close>

text \<open>
  The patterns of the program are sequences of literals, quantified character classes,
  look-aheads, groups of alternatives and \<open>$\<close>. The matcher is the backtracking matcher
  of \<open>re\<close>: a greedy quantifier tries the longest run first, a lazy one the shortest, a
  group its alternatives from left to right, and the first choice for which the rest of
  the pattern matches wins.
\<close>

datatype cls = Any | Digit | Space | Chr char | Rng char char | OneOf "cls list"

datatype item =
    Lit string
  | Rep bool cls nat "nat option" bool
  | Ahead "item list list"
  | Group "item list list"
  | Eos

text \<open>
  \<open>Rep cap c lo hi greedy\<close> is the class \<open>c\<close> repeated \<open>lo\<close> to \<open>hi\<close> times (no upper bound
  for \<open>None\<close>), inside the capturing group 1 when \<open>cap\<close> holds. \<open>Ahead\<close> is \<open>(?=a|b|...)\<close>,
  \<open>Group\<close> is \<open>(?:a|b|...)\<close>, \<open>Eos\<close> is \<open>$\<close>. The flags are \<open>ic\<close> for \<open>re.IGNORECASE\<close> and
  \<open>da\<close> for \<open>re.DOTALL\<close>.
\<close>

definition chr_eq :: "bool \<Rightarrow> char \<Rightarrow> char \<Rightarrow> bool" where
  "chr_eq ic p x = (if ic then lower_c p = lower_c x else p = x)"

definition in_rng :: "char \<Rightarrow> char \<Rightarrow> char \<Rightarrow> bool" where
  "in_rng a b x = ((of_char a :: nat) \<le> of_char x \<and> (of_char x :: nat) \<le> of_char b)"

fun cls_ok :: "bool \<Rightarrow> bool \<Rightarrow> cls \<Rightarrow> char \<Rightarrow> bool" where
  "cls_ok ic da Any x = (da \<or> x \<noteq> CHR 0x0A)"
| "cls_ok ic da Digit x = isdigit x"
| "cls_ok ic da Space x = isspace x"
| "cls_ok ic da (Chr p) x = chr_eq ic p x"
| "cls_ok ic da (Rng a b) x =
     (in_rng a b x \<or> (ic \<and> (in_rng a b (lower_c x) \<or> in_rng a b (upper_c x))))"
| "cls_ok ic da (OneOf cs) x = list_ex (\<lambda>c. cls_ok ic da c x) cs"

text \<open>A literal at the head of the text: the rest of the text after it\<close>

fun lit_match :: "bool \<Rightarrow> string \<Rightarrow> string \<Rightarrow> string option" where
  "lit_match ic [] s = Some s"
| "lit_match ic (p # ps) [] = None"
| "lit_match ic (p # ps) (x # xs) = (if chr_eq ic p x then lit_match ic ps xs else None)"

text \<open>\<open>$\<close> without \<open>re.MULTILINE\<close>: the end of the text, or just before a final newline\<close>

definition at_eos :: "string \<Rightarrow> bool" where
  "at_eos s = (s = [] \<or> s = [CHR 0x0A])"

fun first_of :: "'a option list \<Rightarrow> 'a option" where
  "first_of [] = None"
| "first_of (None # xs) = first_of xs"
| "first_of (Some y # xs) = Some y"

text \<open>The length of the run of class characters at the head of the text, up to the bound\<close>

fun run_len :: "(char \<Rightarrow> bool) \<Rightarrow> nat option \<Rightarrow> string \<Rightarrow> nat" where
  "run_len P hi [] = 0"
| "run_len P hi (x # xs) =
     (if hi = Some 0 \<or> \<not> P x then 0
      else Suc (run_len P (map_option (\<lambda>h. h - 1) hi) xs))"

definition counts :: "bool \<Rightarrow> nat \<Rightarrow> nat \<Rightarrow> nat list" where
  "counts greedy lo n = (if greedy then rev [lo..<Suc n] else [lo..<Suc n])"

text \<open>
  \<open>rmatch ic da items s\<close> matches the items at the head of \<open>s\<close>: the text of group 1 (when
  an item captures) and the text left after the match.
\<close>

function rmatch :: "bool \<Rightarrow> bool \<Rightarrow> item list \<Rightarrow> string \<Rightarrow> (string option \<times> string) option" where
  "rmatch ic da [] s = Some (None, s)"
| "rmatch ic da (Lit l # is) s =
     (case lit_match ic l s of None \<Rightarrow> None | Some r \<Rightarrow> rmatch ic da is r)"
| "rmatch ic da (Rep cap c lo hi greedy # is) s =
     first_of (map
       (\<lambda>k. case rmatch ic da is (drop k s) of
               None \<Rightarrow> None
             | Some (g, r) \<Rightarrow> Some (if cap then Some (take k s) else g, r))
       (counts greedy lo (run_len (cls_ok ic da c) hi s)))"
| "rmatch ic da (Ahead alts # is) s =
     (if list_ex (\<lambda>a. rmatch ic da a s \<noteq> None) alts then rmatch ic da is s else None)"
| "rmatch ic da (Group alts # is) s = first_of (map (\<lambda>a. rmatch ic da (a @ is) s) alts)"
| "rmatch ic da (Eos # is) s = (if at_eos s then rmatch ic da is s else None)"
  by pat_completeness auto
termination
proof (relation "measure (\<lambda>(ic, da, p, s). size_list size p)")
  show "wf (measure (\<lambda>(ic, da, p, s). size_list size p))" by simp
next
  fix ic da :: bool and alts :: "item list list" and "is" :: "item list" and s :: string and a
  assume "a \<in> set alts"
  then have le: "size_list size a \<le> size_list (size_list size) alts"
    by (rule size_list_estimation') simp
  then show "((ic, da, a, s), ic, da, Ahead alts # is, s)
      \<in> measure (\<lambda>(ic, da, p, s). size_list size p)"
    by simp
  from le show "((ic, da, a @ is, s), ic, da, Group alts # is, s)
      \<in> measure (\<lambda>(ic, da, p, s). size_list size p)"
    by (simp add: size_list_append)
qed simp_all

text \<open>
  \<open>re.search\<close>: the leftmost position where the pattern matches. The result is the start
  of the match, the text of group 1, the matched text (group 0) and the text after it.
  None of the program's searches uses \<open>^\<close>, so a match depends on the text from its start
  only.
\<close>

fun re_search :: "bool \<Rightarrow> bool \<Rightarrow> item list \<Rightarrow> string \<Rightarrow>
    (nat \<times> string option \<times> string \<times> string) option" where
  "re_search ic da p [] =
     (case rmatch ic da p [] of
        None \<Rightarrow> None
      | Some (g, r) \<Rightarrow> Some (0, g, [], r))"
| "re_search ic da p (x # xs) =
     (case rmatch ic da p (x # xs) of
        Some (g, r) \<Rightarrow> Some (0, g, take (length (x # xs) - length r) (x # xs), r)
      | None \<Rightarrow>
          (case re_search ic da p xs of
             None \<Rightarrow> None
           | Some (i, g, m, r) \<Rightarrow> Some (Suc i, g, m, r)))"

text \<open>\<open>m.group(1)\<close> of \<open>m = re.search(p, s, flags)\<close>, for a pattern that captures\<close>

definition search_group :: "bool \<Rightarrow> bool \<Rightarrow> item list \<Rightarrow> string \<Rightarrow> string option" where
  "search_group ic da p s =
     (case re_search ic da p s of
        None \<Rightarrow> None
      | Some (i, g, m, r) \<Rightarrow> (case g of None \<Rightarrow> Some [] | Some t \<Rightarrow> Some t))"

text \<open>
  \<open>re.sub(p, '', s)\<close> for a pattern that starts with \<open>^\<close> and cannot match the empty text:
  it can match at the start only, and the match is removed. The items are those after
  the \<open>^\<close>.
\<close>

definition sub_prefix :: "bool \<Rightarrow> bool \<Rightarrow> item list \<Rightarrow> string \<Rightarrow> string" where
  "sub_prefix ic da p s = (case rmatch ic da p s of None \<Rightarrow> s | Some (g, r) \<Rightarrow> r)"

text \<open>
  \<open>re.split\<close> on a pattern that is one look-ahead for a literal: the text is cut before
  every position where the literal starts; a match at position 0 leaves an empty first
  piece.
\<close>

fun split_ahead :: "string \<Rightarrow> string \<Rightarrow> string list" where
  "split_ahead l [] = [[]]"
| "split_ahead l (c # cs) =
     (case split_ahead l cs of
        [] \<Rightarrow> [[c]]
      | p # ps \<Rightarrow> if rmatch False False [Ahead [[Lit l]]] (c # cs) \<noteq> None
                   then [] # (c # p) # ps else (c # p) # ps)"

section \<open>Names\<close>

text \<open>\<open>r'^\d+\.\s*'\<close>\<close>

definition ORDINAL :: "item list" where
  "ORDINAL = [Rep False Digit 1 None True, Lit ''.'', Rep False Space 0 None True]"

text \<open>\<open>re.sub(r'^\d+\.\s*', '', line).strip()\<close>, as both extractors clean a name\<close>

definition strip_ordinal :: "string \<Rightarrow> string" where
  "strip_ordinal line = strip (sub_prefix False False ORDINAL line)"

section \<open>Exceptions\<close>

text \<open>
  An exception is a value. \<open>TransportError\<close> stands for what \<open>requests.get\<close> and
  \<open>raise_for_status\<close> raise, \<open>TypeError\<close> for what \<open>raise None\<close> raises, \<open>ParseError\<close> for
  what the construction of a document from text raises, \<open>ValueError\<close> for what
  \<open>urllib.parse\<close> raises on a host it rejects.
\<close>

datatype error = TransportError string | TypeError | ParseError string | ValueError

section \<open>Joining URLs\<close>

text \<open>
  \<open>urllib.parse.urljoin\<close>, as the program calls it on text: \<open>urlsplit\<close>, \<open>urlparse\<close>,
  \<open>urlunparse\<close> and the resolution of a relative path. \<open>urlsplit\<close> raises \<open>ValueError\<close> for
  a host with one bracket and no other, and for a host whose text between the brackets
  is not an IP literal. What an IP literal is (an IPv6 address by the check of
  \<open>ipaddress\<close>, or an address of a later version, of the form \<open>v1.x\<close>) the model takes as
  the parameter \<open>ip_literal\<close>, and what is proved holds for every such check. The check
  of the host after normalisation never raises on the code points of the model.
\<close>

definition uses_relative :: "string list" where
  "uses_relative = [[], ''ftp'', ''http'', ''gopher'', ''nntp'', ''imap'', ''wais'', ''file'',
     ''https'', ''shttp'', ''mms'', ''prospero'', ''rtsp'', ''rtsps'', ''rtspu'', ''sftp'',
     ''svn'', ''svn+ssh'', ''ws'', ''wss'']"

definition uses_netloc :: "string list" where
  "uses_netloc = [[], ''ftp'', ''http'', ''gopher'', ''nntp'', ''telnet'', ''imap'', ''wais'',
     ''file'', ''mms'', ''https'', ''shttp'', ''snews'', ''prospero'', ''rtsp'', ''rtsps'',
     ''rtspu'', ''rsync'', ''svn'', ''svn+ssh'', ''sftp'', ''nfs'', ''git'', ''git+ssh'',
     ''ws'', ''wss'']"

definition uses_params :: "string list" where
  "uses_params = [[], ''ftp'', ''hdl'', ''prospero'', ''http'', ''imap'', ''https'', ''shttp'',
     ''rtsp'', ''rtsps'', ''rtspu'', ''sip'', ''sips'', ''mms'', ''sftp'', ''tel'']"

definition ascii_alpha :: "char \<Rightarrow> bool" where
  "ascii_alpha c = (let n = (of_char c :: nat) in (65 \<le> n \<and> n \<le> 90) \<or> (97 \<le> n \<and> n \<le> 122))"

definition scheme_char :: "char \<Rightarrow> bool" where
  "scheme_char c = (ascii_alpha c \<or> isdigit c \<or> c \<in> set ''+-.'')"

text \<open>\<open>s.split(d, 1)\<close> when \<open>d\<close> is in \<open>s\<close>: the text before the first \<open>d\<close> and the text after it\<close>

definition before :: "char \<Rightarrow> string \<Rightarrow> string" where
  "before d s = takeWhile (\<lambda>c. c \<noteq> d) s"

definition after :: "char \<Rightarrow> string \<Rightarrow> string" where
  "after d s = drop 1 (dropWhile (\<lambda>c. c \<noteq> d) s)"

text \<open>
  The checks of the host in \<open>urlsplit\<close>: a bracket without its partner, or brackets around
  a text (from the first \<open>[\<close> to the next \<open>]\<close>) that is not an IP literal
\<close>

definition bad_host :: "(string \<Rightarrow> bool) \<Rightarrow> string \<Rightarrow> bool" where
  "bad_host ip_literal netloc =
     (let lb = (CHR ''['' \<in> set netloc); rb = (CHR '']'' \<in> set netloc)
      in (lb \<and> \<not> rb) \<or> (rb \<and> \<not> lb)
         \<or> (lb \<and> rb \<and> \<not> ip_literal (before CHR '']'' (after CHR ''['' netloc))))"

text \<open>The result of \<open>urlsplit(url, scheme)\<close>: scheme, netloc, path, query, fragment\<close>

definition urlsplit :: "(string \<Rightarrow> bool) \<Rightarrow> string \<Rightarrow> string \<Rightarrow>
    error + string \<times> string \<times> string \<times> string \<times> string" where
  "urlsplit ip_literal url0 scheme0 =
     (let unsafe = (\<lambda>c. c \<in> {CHR 0x09, CHR 0x0D, CHR 0x0A});
          url1 = filter (\<lambda>c. \<not> unsafe c) (dropWhile (\<lambda>c. (of_char c :: nat) \<le> 32) url0);
          scheme1 = filter (\<lambda>c. \<not> unsafe c)
            (rev (dropWhile (\<lambda>c. (of_char c :: nat) \<le> 32)
               (rev (dropWhile (\<lambda>c. (of_char c :: nat) \<le> 32) scheme0))));
          pre = before CHR '':'' url1;
          (scheme, url2) =
            (if CHR '':'' \<in> set url1 \<and> pre \<noteq> [] \<and> ascii_alpha (hd url1) \<and> list_all scheme_char pre
             then (lower pre, after CHR '':'' url1) else (scheme1, url1));
          (netloc, url3) =
            (if take 2 url2 = ''//''
             then (takeWhile (\<lambda>c. c \<notin> set ''/?#'') (drop 2 url2),
                   dropWhile (\<lambda>c. c \<notin> set ''/?#'') (drop 2 url2))
             else ([], url2));
          (url4, fragment) =
            (if CHR ''#'' \<in> set url3 then (before CHR ''#'' url3, after CHR ''#'' url3)
             else (url3, []));
          (url5, query) =
            (if CHR ''?'' \<in> set url4 then (before CHR ''?'' url4, after CHR ''?'' url4)
             else (url4, []))
      in if bad_host ip_literal netloc then Inl ValueError
         else Inr (scheme, netloc, url5, query, fragment))"

definition splitparams :: "string \<Rightarrow> string \<times> string" where
  "splitparams url =
     (if CHR ''/'' \<in> set url
      then (let lastseg = rev (before CHR ''/'' (rev url));
                dir = take (length url - length lastseg) url
            in if CHR '';'' \<in> set lastseg
               then (dir @ before CHR '';'' lastseg, after CHR '';'' lastseg)
               else (url, []))
      else (before CHR '';'' url, after CHR '';'' url))"

text \<open>The result of \<open>urlparse(url, scheme)\<close>: scheme, netloc, path, params, query, fragment\<close>

definition urlparse :: "(string \<Rightarrow> bool) \<Rightarrow> string \<Rightarrow> string \<Rightarrow>
    error + string \<times> string \<times> string \<times> string \<times> string \<times> string" where
  "urlparse ip_literal url scheme0 =
     (case urlsplit ip_literal url scheme0 of
        Inl e \<Rightarrow> Inl e
      | Inr (scheme, netloc, path, query, fragment) \<Rightarrow>
          if scheme \<in> set uses_params \<and> CHR '';'' \<in> set path
          then (case splitparams path of
                  (path', params) \<Rightarrow> Inr (scheme, netloc, path', params, query, fragment))
          else Inr (scheme, netloc, path, [], query, fragment))"

definition urlunsplit :: "string \<times> string \<times> string \<times> string \<times> string \<Rightarrow> string" where
  "urlunsplit parts =
     (case parts of
        (scheme, netloc, url0, query, fragment) \<Rightarrow>
          (let url1 = (if netloc \<noteq> [] \<or> (scheme \<noteq> [] \<and> scheme \<in> set uses_netloc)
                          \<or> take 2 url0 = ''//''
                       then ''//'' @ netloc
                              @ (if url0 \<noteq> [] \<and> take 1 url0 \<noteq> ''/'' then ''/'' @ url0 else url0)
                       else url0);
               url2 = (if scheme \<noteq> [] then scheme @ '':'' @ url1 else url1);
               url3 = (if query \<noteq> [] then url2 @ ''?'' @ query else url2)
           in if fragment \<noteq> [] then url3 @ ''#'' @ fragment else url3))"

definition urlunparse ::
    "string \<times> string \<times> string \<times> string \<times> string \<times> string \<Rightarrow> string" where
  "urlunparse parts =
     (case parts of
        (scheme, netloc, url, params, query, fragment) \<Rightarrow>
          urlunsplit (scheme, netloc, if params \<noteq> [] then url @ '';'' @ params else url,
                      query, fragment))"

text \<open>The loop over the segments: \<open>..\<close> pops (nothing, on an empty path), \<open>.\<close> is skipped\<close>

fun resolve :: "string list \<Rightarrow> string list \<Rightarrow> string list" where
  "resolve [] resolved_path = resolved_path"
| "resolve (seg # segments) resolved_path =
     (if seg = ''..'' then resolve segments (butlast resolved_path)
      else if seg = ''.'' then resolve segments resolved_path
      else resolve segments (resolved_path @ [seg]))"

text \<open>\<open>segments[1:-1] = filter(None, segments[1:-1])\<close>\<close>

definition squeeze :: "string list \<Rightarrow> string list" where
  "squeeze segments =
     (case segments of
        [] \<Rightarrow> []
      | [x] \<Rightarrow> [x]
      | x # y # ys \<Rightarrow> x # filter (\<lambda>seg. seg \<noteq> []) (butlast (y # ys)) @ [last (y # ys)])"

text \<open>What \<open>urljoin\<close> does once both URLs are parsed\<close>

definition join_parsed :: "string \<Rightarrow>
    string \<times> string \<times> string \<times> string \<times> string \<times> string \<Rightarrow>
    string \<times> string \<times> string \<times> string \<times> string \<times> string \<Rightarrow> string" where
  "join_parsed url bparts parts =
     (case bparts of
        (bscheme, bnetloc, bpath, bparams, bquery, bfragment) \<Rightarrow>
     (case parts of
        (scheme, netloc, path, params, query, fragment) \<Rightarrow>
          if scheme \<noteq> bscheme \<or> scheme \<notin> set uses_relative then url
          else if scheme \<in> set uses_netloc \<and> netloc \<noteq> []
          then urlunparse (scheme, netloc, path, params, query, fragment)
          else
            (let netloc' = (if scheme \<in> set uses_netloc then bnetloc else netloc)
             in if path = [] \<and> params = []
                then urlunparse (scheme, netloc', bpath, bparams,
                                 if query = [] then bquery else query, fragment)
                else
                  (let parts = split_on CHR ''/'' bpath;
                       base_parts = (if last parts \<noteq> [] then butlast parts else parts);
                       segments = (if take 1 path = ''/'' then split_on CHR ''/'' path
                                   else squeeze (base_parts @ split_on CHR ''/'' path));
                       resolved = resolve segments [];
                       resolved_path = (if last segments \<in> {''.'', ''..''}
                                        then resolved @ [[]] else resolved);
                       joined = join ''/'' resolved_path
                   in urlunparse (scheme, netloc', if joined = [] then ''/'' else joined,
                                  params, query, fragment)))))"

definition urljoin :: "(string \<Rightarrow> bool) \<Rightarrow> string \<Rightarrow> string \<Rightarrow> error + string" where
  "urljoin ip_literal base url =
     (if base = [] then Inr url
      else if url = [] then Inr base
      else
        (case urlparse ip_literal base [] of
           Inl e \<Rightarrow> Inl e
         | Inr bparts \<Rightarrow>
             (case urlparse ip_literal url (fst bparts) of
                Inl e \<Rightarrow> Inl e
              | Inr parts \<Rightarrow> Inr (join_parsed url bparts parts))))"

section \<open>Configuration\<close>

definition URL :: string where
  "URL = ''https://www.timeout.com/london/food-drink/londons-best-cafes-and-coffee-shops''"

definition MAX_ITEMS :: nat where
  "MAX_ITEMS = 20"

section \<open>The fetcher\<close>

text \<open>What a run does besides returning: requests, pauses and log records, in order\<close>

datatype event =
    Get string
  | Sleep real
  | LogFetchFailed nat string error real
  | LogScrapeFailed string error
  | LogInfo string
  | LogWarning string
  | LogError string

text \<open>
  The network answers the attempt number \<open>attempt\<close> on \<open>url\<close> with a text or with a
  failure, and \<open>jitter attempt\<close> is the value of \<open>random.random()\<close> there. Waits are real
  numbers. The loop runs over \<open>range(1, retries+1)\<close>.
\<close>

type_synonym network = "string \<Rightarrow> nat \<Rightarrow> error + string"

fun fetch_loop :: "network \<Rightarrow> (nat \<Rightarrow> real) \<Rightarrow> string \<Rightarrow> real \<Rightarrow> nat list \<Rightarrow> error option \<Rightarrow>
    (error + string) \<times> event list" where
  "fetch_loop net jitter url backoff [] last_exc =
     (case last_exc of None \<Rightarrow> (Inl TypeError, []) | Some e \<Rightarrow> (Inl e, []))"
| "fetch_loop net jitter url backoff (attempt # rest) last_exc =
     (case net url attempt of
        Inr text \<Rightarrow> (Inr text, [Get url])
      | Inl e \<Rightarrow>
          (let wait = backoff ^ attempt + jitter attempt;
               (res, evs) = fetch_loop net jitter url backoff rest (Some e)
           in (res, [Get url, LogFetchFailed attempt url e wait, Sleep wait] @ evs)))"

definition fetch :: "network \<Rightarrow> (nat \<Rightarrow> real) \<Rightarrow> string \<Rightarrow> nat \<Rightarrow> real \<Rightarrow>
    (error + string) \<times> event list" where
  "fetch net jitter url retries backoff =
     fetch_loop net jitter url backoff [1..<Suc retries] None"

text \<open>The number of requests in a trace, and the attempts and waits it logs\<close>

fun gets :: "event list \<Rightarrow> nat" where
  "gets [] = 0"
| "gets (Get u # evs) = Suc (gets evs)"
| "gets (e # evs) = gets evs"

fun waits :: "event list \<Rightarrow> (nat \<times> real) list" where
  "waits [] = []"
| "waits (LogFetchFailed a u e w # evs) = (a, w) # waits evs"
| "waits (e # evs) = waits evs"

section \<open>Documents\<close>

text \<open>
  The tree that \<open>BeautifulSoup(html, "html.parser")\<close> builds. A text node is a string of
  the page with the class the parser gave it: \<open>NavigableString\<close> for plain text, \<open>CData\<close>,
  \<open>Script\<close>, \<open>Stylesheet\<close> or \<open>TemplateString\<close> for a string inside a script, style or
  template element, and \<open>Other\<close> for comments, declarations and the like. An element has
  a tag name, its attributes and its children. A document is the list of the top-level
  nodes.
\<close>

datatype skind = NavigableString | CData | Script | Stylesheet | TemplateString | Other

datatype node = Text skind string | Elem string "(string \<times> string) list" "node list"

fun kids :: "node \<Rightarrow> node list" where
  "kids (Text k s) = []"
| "kids (Elem t as cs) = cs"

text \<open>\<open>elem.name\<close>: \<open>None\<close> on a text node\<close>

fun tag :: "node \<Rightarrow> string option" where
  "tag (Text k s) = None"
| "tag (Elem t as cs) = Some t"

text \<open>\<open>elem.get(key)\<close>\<close>

fun attr :: "node \<Rightarrow> string \<Rightarrow> string option" where
  "attr (Text k s) key = None"
| "attr (Elem t as cs) key = map_of as key"

text \<open>The nodes of a forest in document order\<close>

fun preorder :: "node list \<Rightarrow> node list" where
  "preorder [] = []"
| "preorder (Text k s # ns) = Text k s # preorder ns"
| "preorder (Elem t as cs # ns) = Elem t as cs # preorder cs @ preorder ns"

text \<open>
  The classes of string that \<open>get_text\<close> takes on an element: a script, style or template
  element takes the strings of its own class, every other element the plain ones
\<close>

definition interesting :: "string \<Rightarrow> skind list" where
  "interesting t =
     (if t = ''script'' then [Script]
      else if t = ''style'' then [Stylesheet]
      else if t = ''template'' then [TemplateString]
      else [NavigableString, CData])"

text \<open>
  The strings that \<open>get_text\<close> joins, in document order: on an element its descendants of
  a class it takes, on a text node the node itself when it is plain
\<close>

fun strings :: "node \<Rightarrow> string list" where
  "strings (Text k s) = (if k \<in> set [NavigableString, CData] then [s] else [])"
| "strings (Elem t as cs) =
     concat (map (\<lambda>n. case n of
                        Text k s \<Rightarrow> if k \<in> set (interesting t) then [s] else []
                      | Elem t' as' cs' \<Rightarrow> [])
               (preorder cs))"

text \<open>\<open>elem.get_text(sep, strip=True)\<close>\<close>

definition get_text :: "string \<Rightarrow> node \<Rightarrow> string" where
  "get_text sep n = join sep (filter (\<lambda>s. s \<noteq> []) (map strip (strings n)))"

text \<open>
  A node in its place: the node, its next siblings, and the nodes that follow its parent
  in document order. The nodes after the start of an element, which \<open>find_next\<close> walks,
  are its descendants, then its next siblings with theirs, then what follows the parent.
\<close>

type_synonym place = "node \<times> node list \<times> node list"

fun places :: "node list \<Rightarrow> node list \<Rightarrow> place list" where
  "places [] follow = []"
| "places (Text k s # ns) follow = (Text k s, ns, follow) # places ns follow"
| "places (Elem t as cs # ns) follow =
     (Elem t as cs, ns, follow) # places cs (preorder ns @ follow) @ places ns follow"

definition inside :: "place \<Rightarrow> place list" where
  "inside pl = (case pl of (n, sibs, follow) \<Rightarrow> places (kids n) (preorder sibs @ follow))"

definition next_elements :: "place \<Rightarrow> node list" where
  "next_elements pl = (case pl of (n, sibs, follow) \<Rightarrow> preorder (kids n) @ preorder sibs @ follow)"

definition named :: "string list \<Rightarrow> node \<Rightarrow> bool" where
  "named names n = (case tag n of None \<Rightarrow> False | Some t \<Rightarrow> t \<in> set names)"

text \<open>\<open>soup.find(name)\<close> and \<open>soup.find_all(names)\<close> on the document\<close>

definition soup_find :: "node list \<Rightarrow> string \<Rightarrow> place option" where
  "soup_find soup name = List.find (\<lambda>pl. named [name] (fst pl)) (places soup [])"

definition soup_find_all :: "node list \<Rightarrow> string list \<Rightarrow> place list" where
  "soup_find_all soup names = filter (\<lambda>pl. named names (fst pl)) (places soup [])"

text \<open>\<open>elem.find_all(names)\<close>, \<open>elem.find(name)\<close> and \<open>elem.find_next(name)\<close>\<close>

definition find_all :: "place \<Rightarrow> string list \<Rightarrow> place list" where
  "find_all pl names = filter (\<lambda>q. named names (fst q)) (inside pl)"

definition find_in :: "place \<Rightarrow> string \<Rightarrow> node option" where
  "find_in pl name = List.find (named [name]) (preorder (kids (fst pl)))"

definition find_next :: "place \<Rightarrow> string \<Rightarrow> node option" where
  "find_next pl name = List.find (named [name]) (next_elements pl)"

text \<open>\<open>elem.find('a') or elem.find_next('a')\<close>: an element is true\<close>

definition find_a :: "place \<Rightarrow> node option" where
  "find_a pl = (case find_in pl ''a'' of Some a \<Rightarrow> Some a | None \<Rightarrow> find_next pl ''a'')"

section \<open>Candidates\<close>

record entry =
  name :: string
  description :: string
  address :: string
  opening_hours :: string
  source_link :: string

definition MARKER :: string where
  "MARKER = ''What is it?''"

text \<open>The patterns of the primary extractor, all with \<open>re.DOTALL | re.IGNORECASE\<close>\<close>

definition WHAT_RE :: "item list" where
  \<comment> \<open>\<open>r'What is it\?\s*(.+?)(?=Why we love it:|Order this:|Address:|$)'\<close>\<close>
  "WHAT_RE = [Lit ''What is it?'', Rep False Space 0 None True, Rep True Any 1 None False,
     Ahead [[Lit ''Why we love it:''], [Lit ''Order this:''], [Lit ''Address:''], [Eos]]]"

definition WHY_RE :: "item list" where
  \<comment> \<open>\<open>r'Why we love it:\s*(.+?)(?=Order this:|Address:|$)'\<close>\<close>
  "WHY_RE = [Lit ''Why we love it:'', Rep False Space 0 None True, Rep True Any 1 None False,
     Ahead [[Lit ''Order this:''], [Lit ''Address:''], [Eos]]]"

definition ADDR_RE :: "item list" where
  \<comment> \<open>\<open>r'Address:\s*(.+?)(?=Opening hours?:|$)'\<close>\<close>
  "ADDR_RE = [Lit ''Address:'', Rep False Space 0 None True, Rep True Any 1 None False,
     Ahead [[Lit ''Opening hour'', Rep False (Chr CHR ''s'') 0 (Some 1) True, Lit '':''], [Eos]]]"

definition HOURS_RE :: "item list" where
  \<comment> \<open>\<open>r'Opening hours?:\s*(.+?)(?=\n\n|$)'\<close>\<close>
  "HOURS_RE = [Lit ''Opening hour'', Rep False (Chr CHR ''s'') 0 (Some 1) True, Lit '':'',
     Rep False Space 0 None True, Rep True Any 1 None False,
     Ahead [[Lit [CHR 0x0A, CHR 0x0A]], [Eos]]]"

definition NOISE :: "string list" where
  "NOISE = [''recommended'', ''stars'', ''shopping'', ''out of'']"

section \<open>The primary extractor\<close>

text \<open>The scan of the first lines of a segment for a name; the first fitting line wins\<close>

fun scan_name :: "string list \<Rightarrow> string" where
  "scan_name [] = []"
| "scan_name (l # ls) =
     (let line = strip l
      in if line \<noteq> [] \<and> length line < 100 \<and> \<not> contains MARKER line
            \<and> \<not> list_ex (\<lambda>x. contains x (lower line)) NOISE
            \<and> 2 \<le> length (split_ws line)
         then strip_ordinal line
         else scan_name ls)"

text \<open>The fields that the text of one segment gives; the link is resolved afterwards\<close>

definition parse_entry :: "string \<Rightarrow> entry" where
  "parse_entry entry_text =
     (let lines = split_on CHR 0x0A entry_text;
          nm = scan_name (take 5 lines);
          what = (case search_group True True WHAT_RE entry_text of
                    None \<Rightarrow> [] | Some g \<Rightarrow> strip g);
          descr = (if what = []
                   then (case search_group True True WHY_RE entry_text of
                           None \<Rightarrow> [] | Some g \<Rightarrow> strip g)
                   else what);
          addr = (case search_group True True ADDR_RE entry_text of
                    None \<Rightarrow> []
                  | Some g \<Rightarrow> (case split_on CHR 0x0A (strip g) of
                                 [] \<Rightarrow> [] | a # _ \<Rightarrow> strip a));
          hours = (case search_group True True HOURS_RE entry_text of
                     None \<Rightarrow> []
                   | Some g \<Rightarrow> replace_c CHR 0x0A CHR '' '' (strip g))
      in \<lparr>name = nm, description = descr, address = addr, opening_hours = hours,
          source_link = []\<rparr>)"

text \<open>
  The search for the link of a name over the headings and anchors of the content region:
  the first element whose text contains the name, or is contained in it, and that gives
  an acceptable link ends the search. The link is what \<open>urljoin\<close> returns, or its
  exception.
\<close>

fun find_link :: "(string \<Rightarrow> bool) \<Rightarrow> string \<Rightarrow> place list \<Rightarrow> error + string" where
  "find_link ip_literal nm [] = Inr []"
| "find_link ip_literal nm (elem # elems) =
     (let elem_text = get_text [] (fst elem);
          own = (if tag (fst elem) = Some ''a''
                 then (case attr (fst elem) ''href'' of None \<Rightarrow> [] | Some href \<Rightarrow> href)
                 else [])
      in if contains (lower nm) (lower elem_text) \<or> contains (lower elem_text) (lower nm)
         then
           (if own \<noteq> [] then urljoin ip_literal URL own
            else
              (case find_a elem of
                 None \<Rightarrow> find_link ip_literal nm elems
               | Some link \<Rightarrow>
                   (case attr link ''href'' of
                      None \<Rightarrow> find_link ip_literal nm elems
                    | Some href \<Rightarrow>
                        if href \<noteq> [] \<and> (contains ''/venue/'' href
                             \<or> contains (replace_c CHR '' '' CHR ''-'' (lower nm)) (lower href))
                        then urljoin ip_literal URL href
                        else find_link ip_literal nm elems)))
         else find_link ip_literal nm elems)"

text \<open>
  The loop over the segments, with the candidates accepted so far. An exception of the
  link search leaves the loop.
\<close>

fun entries_loop :: "(string \<Rightarrow> bool) \<Rightarrow> place list \<Rightarrow> string list \<Rightarrow> entry list \<Rightarrow>
    error + entry list" where
  "entries_loop ip_literal elems [] entries = Inr entries"
| "entries_loop ip_literal elems (entry_text # rest) entries =
     (if \<not> contains MARKER entry_text then entries_loop ip_literal elems rest entries
      else
        (let e = parse_entry entry_text
         in if name e \<noteq> [] \<and> description e \<noteq> []
            then
              (case find_link ip_literal (name e) elems of
                 Inl err \<Rightarrow> Inl err
               | Inr link \<Rightarrow>
                   (let entries' = entries @ [e\<lparr>source_link := link\<rparr>]
                    in if MAX_ITEMS \<le> length entries' then Inr entries'
                       else entries_loop ip_literal elems rest entries'))
            else entries_loop ip_literal elems rest entries))"

text \<open>The extraction from the joined text, given the headings and anchors to search\<close>

definition entries_of_text :: "(string \<Rightarrow> bool) \<Rightarrow> place list \<Rightarrow> string \<Rightarrow> error + entry list" where
  "entries_of_text ip_literal elems full_text =
     entries_loop ip_literal elems (split_ahead MARKER full_text) []"

text \<open>The content region, its text blocks and the joined text\<close>

definition main_content :: "node list \<Rightarrow> place option" where
  "main_content soup =
     (case soup_find soup ''main'' of
        Some m \<Rightarrow> Some m
      | None \<Rightarrow> (case soup_find soup ''article'' of
                   Some a \<Rightarrow> Some a
                 | None \<Rightarrow> soup_find soup ''body''))"

definition text_blocks :: "place \<Rightarrow> string list" where
  "text_blocks mc =
     filter (\<lambda>text. text \<noteq> [] \<and> 20 < length text)
       (map (\<lambda>elem. get_text [CHR 0x0A] (fst elem))
          (find_all mc [''p'', ''div'', ''section'', ''li'']))"

definition full_text :: "place \<Rightarrow> string" where
  "full_text mc = join [CHR 0x0A] (text_blocks mc)"

section \<open>The fallback extractor\<close>

text \<open>The patterns of the fallback extractor, all with \<open>re.IGNORECASE\<close> only\<close>

definition H_WHAT_RE :: "item list" where
  \<comment> \<open>\<open>r'What is it\?\s*(.+?)(?=Why we love it:|Address:|$)'\<close>\<close>
  "H_WHAT_RE = [Lit ''What is it?'', Rep False Space 0 None True, Rep True Any 1 None False,
     Ahead [[Lit ''Why we love it:''], [Lit ''Address:''], [Eos]]]"

definition H_ADDR_RE :: "item list" where
  \<comment> \<open>\<open>r'Address:\s*(.+?)(?=Opening|$)'\<close>\<close>
  "H_ADDR_RE = [Lit ''Address:'', Rep False Space 0 None True, Rep True Any 1 None False,
     Ahead [[Lit ''Opening''], [Eos]]]"

definition H_HOURS_RE :: "item list" where
  \<comment> \<open>\<open>r'Opening hours?:\s*(.+?)(?:\.|$)'\<close>\<close>
  "H_HOURS_RE = [Lit ''Opening hour'', Rep False (Chr CHR ''s'') 0 (Some 1) True, Lit '':'',
     Rep False Space 0 None True, Rep True Any 1 None False, Group [[Lit ''.''], [Eos]]]"

definition HEADING_RE :: "item list" where
  \<comment> \<open>\<open>r'^h[1-6]$'\<close>, used with \<open>re.match\<close>\<close>
  "HEADING_RE = [Lit ''h'', Rep False (Rng CHR ''1'' CHR ''6'') 1 (Some 1) True, Eos]"

definition GENERIC :: "string list" where
  "GENERIC = [''best caf'' @ [CHR 0xE9], ''top'', ''london'', ''time out'']"

text \<open>
  The walk over the next siblings of a heading. A text node is false when it is empty; it
  has the name \<open>None\<close> and its text is itself when it is plain.
\<close>

fun collect :: "node list \<Rightarrow> string list \<Rightarrow> string list" where
  "collect [] collected_text = collected_text"
| "collect (current # rest) collected_text =
     (if (case current of Text k s \<Rightarrow> s = [] | Elem t as cs \<Rightarrow> False)
         \<or> \<not> length collected_text < 10
      then collected_text
      else if (case tag current of
                 None \<Rightarrow> False
               | Some t \<Rightarrow> t \<noteq> [] \<and> rmatch False False HEADING_RE t \<noteq> None)
      then collected_text
      else (let text = get_text '' '' current
            in collect rest (if text \<noteq> [] then collected_text @ [text] else collected_text)))"

text \<open>
  What one accepted heading gives: a candidate, or nothing without a description, or the
  exception of \<open>urljoin\<close>, which is called before the description is tested
\<close>

definition heading_entry :: "(string \<Rightarrow> bool) \<Rightarrow> place \<Rightarrow> string \<Rightarrow> error + entry option" where
  "heading_entry ip_literal h nm =
     (let full = join '' '' (collect (fst (snd h)) []);
          what = (if contains ''What is it?'' full
                  then (case search_group True False H_WHAT_RE full of
                          None \<Rightarrow> [] | Some g \<Rightarrow> strip g)
                  else []);
          descr = (if what = [] \<and> 50 < length full then take 500 full else what);
          addr = (if contains ''Address:'' full
                  then (case search_group True False H_ADDR_RE full of
                          None \<Rightarrow> [] | Some g \<Rightarrow> strip g)
                  else []);
          hours = (if contains ''Opening hours'' full \<or> contains ''Opening Hours'' full
                   then (case search_group True False H_HOURS_RE full of
                           None \<Rightarrow> [] | Some g \<Rightarrow> strip g)
                   else []);
          link = (case find_a h of
                    None \<Rightarrow> Inr []
                  | Some a \<Rightarrow>
                      (case attr a ''href'' of
                         None \<Rightarrow> Inr []
                       | Some href \<Rightarrow>
                           if href \<noteq> [] \<and> (contains ''/venue/'' href \<or> \<not> prefix ''http'' href)
                           then urljoin ip_literal URL href else Inr []))
      in case link of
           Inl err \<Rightarrow> Inl err
         | Inr source \<Rightarrow>
             Inr (if descr \<noteq> []
                  then Some \<lparr>name = nm, description = descr, address = addr,
                             opening_hours = hours, source_link = source\<rparr>
                  else None))"

text \<open>The loop over the headings, with the keys seen and the candidates accepted so far\<close>

fun headings_loop :: "(string \<Rightarrow> bool) \<Rightarrow> place list \<Rightarrow> string set \<Rightarrow> entry list \<Rightarrow>
    error + entry list" where
  "headings_loop ip_literal [] seen entries = Inr entries"
| "headings_loop ip_literal (h # headings) seen entries =
     (let name0 = get_text '' '' (fst h)
      in if name0 = [] \<or> 100 < length name0 then headings_loop ip_literal headings seen entries
         else if list_ex (\<lambda>x. contains x (lower name0)) GENERIC
         then headings_loop ip_literal headings seen entries
         else
           (let nm = strip_ordinal name0;
                key = lower nm
            in if key \<in> seen \<or> length (split_ws nm) < 2
               then headings_loop ip_literal headings seen entries
               else
                 (case heading_entry ip_literal h nm of
                    Inl err \<Rightarrow> Inl err
                  | Inr found \<Rightarrow>
                      (let entries' = (case found of
                                         None \<Rightarrow> entries
                                       | Some e \<Rightarrow> entries @ [e])
                       in if MAX_ITEMS \<le> length entries' then Inr entries'
                          else headings_loop ip_literal headings (insert key seen) entries'))))"

definition extract_by_headings :: "(string \<Rightarrow> bool) \<Rightarrow> node list \<Rightarrow> error + entry list" where
  "extract_by_headings ip_literal soup =
     headings_loop ip_literal (soup_find_all soup [''h2'', ''h3'', ''h4'']) {} []"

section \<open>The extraction of the article\<close>

text \<open>
  \<open>extract_article_entries\<close> from the parsed document on: the candidates, or the
  exception that leaves the function, and the log records written on the way.
\<close>

definition extract_article_entries :: "(string \<Rightarrow> bool) \<Rightarrow> node list \<Rightarrow>
    (error + entry list) \<times> event list" where
  "extract_article_entries ip_literal soup =
     (case main_content soup of
        None \<Rightarrow> (Inr [], [LogError ''Could not find main content area''])
      | Some mc \<Rightarrow>
          (case entries_of_text ip_literal (find_all mc [''h2'', ''h3'', ''h4'', ''a''])
                  (full_text mc) of
             Inl err \<Rightarrow> (Inl err, [])
           | Inr entries \<Rightarrow>
               if entries = []
               then (case extract_by_headings ip_literal soup of
                       Inl err \<Rightarrow>
                         (Inl err,
                          [LogInfo ''Pattern-based extraction failed, trying heading-based method''])
                     | Inr found \<Rightarrow>
                         (Inr (take MAX_ITEMS found),
                          [LogInfo ''Pattern-based extraction failed, trying heading-based method'']))
               else (Inr (take MAX_ITEMS entries), [])))"

section \<open>The enricher\<close>

text \<open>The dictionary \<open>out\<close> of \<open>scrape_venue_info\<close>, with its keys phone, website, address\<close>

record venue =
  phone :: string
  website :: string
  venue_address :: string

definition empty_venue :: venue where
  "empty_venue = \<lparr>phone = [], website = [], venue_address = []\<rparr>"

definition PHONE_RE :: "item list" where
  \<comment> \<open>\<open>r'(\+44\s?\d[\d\s\-]{7,}\d|0\d{2,4}[\s\-]?\d{3,4}[\s\-]?\d{3,4})'\<close>, no flags\<close>
  "PHONE_RE = [Group
     [[Lit ''+44'', Rep False Space 0 (Some 1) True, Rep False Digit 1 (Some 1) True,
       Rep False (OneOf [Digit, Space, Chr CHR ''-'']) 7 None True,
       Rep False Digit 1 (Some 1) True],
      [Lit ''0'', Rep False Digit 2 (Some 4) True,
       Rep False (OneOf [Space, Chr CHR ''-'']) 0 (Some 1) True,
       Rep False Digit 3 (Some 4) True,
       Rep False (OneOf [Space, Chr CHR ''-'']) 0 (Some 1) True,
       Rep False Digit 3 (Some 4) True]]]"

definition POSTCODE_RE :: "item list" where
  \<comment> \<open>\<open>r'[A-Z]{1,2}\d{1,2}[A-Z]?\s*\d[A-Z]{2}'\<close> with \<open>re.IGNORECASE\<close>\<close>
  "POSTCODE_RE =
     [Rep False (Rng CHR ''A'' CHR ''Z'') 1 (Some 2) True, Rep False Digit 1 (Some 2) True,
      Rep False (Rng CHR ''A'' CHR ''Z'') 0 (Some 1) True, Rep False Space 0 None True,
      Rep False Digit 1 (Some 1) True, Rep False (Rng CHR ''A'' CHR ''Z'') 2 (Some 2) True]"

text \<open>\<open>soup.select_one(selector)\<close>: the first element in document order that fits\<close>

definition select_one :: "node list \<Rightarrow> (node \<Rightarrow> bool) \<Rightarrow> node option" where
  "select_one soup sel = List.find sel (preorder soup)"

definition attr_is :: "string \<Rightarrow> (string \<Rightarrow> bool) \<Rightarrow> node \<Rightarrow> bool" where
  "attr_is key P n = (case attr n key of None \<Rightarrow> False | Some v \<Rightarrow> P v)"

definition sel_tel :: "node \<Rightarrow> bool" where
  \<comment> \<open>\<open>a[href^="tel:"]\<close>\<close>
  "sel_tel n = (named [''a''] n \<and> attr_is ''href'' (prefix ''tel:'') n)"

definition sel_nofollow :: "node \<Rightarrow> bool" where
  \<comment> \<open>\<open>a[rel*="nofollow"]\<close>\<close>
  "sel_nofollow n = (named [''a''] n \<and> attr_is ''rel'' (contains ''nofollow'') n)"

definition sel_blank :: "node \<Rightarrow> bool" where
  \<comment> \<open>\<open>a[target="_blank"]\<close>\<close>
  "sel_blank n = (named [''a''] n \<and> attr_is ''target'' (\<lambda>v. v = ''_blank'') n)"

definition sel_external :: "node \<Rightarrow> bool" where
  \<comment> \<open>\<open>a.external\<close>\<close>
  "sel_external n = (named [''a''] n \<and> attr_is ''class'' (\<lambda>v. ''external'' \<in> set (split_ws v)) n)"

text \<open>The loop over the three selectors for the website\<close>

fun website_loop :: "node list \<Rightarrow> (node \<Rightarrow> bool) list \<Rightarrow> string" where
  "website_loop soup [] = []"
| "website_loop soup (sel # sels) =
     (case select_one soup sel of
        None \<Rightarrow> website_loop soup sels
      | Some a \<Rightarrow>
          (case attr a ''href'' of
             None \<Rightarrow> website_loop soup sels
           | Some href \<Rightarrow>
               if href \<noteq> [] \<and> \<not> contains ''timeout.com'' href \<and> prefix ''http'' href
               then href else website_loop soup sels))"

text \<open>\<open>soup.get_text(" ", strip=True)\<close> on the whole document\<close>

definition soup_text :: "node list \<Rightarrow> string" where
  "soup_text soup = get_text '' '' (Elem ''[document]'' [] soup)"

text \<open>The body of the \<open>try\<close> once the page is parsed\<close>

definition venue_of :: "node list \<Rightarrow> venue" where
  "venue_of soup =
     (let tel_phone = (case select_one soup sel_tel of
                         None \<Rightarrow> []
                       | Some tel \<Rightarrow>
                           (case attr tel ''href'' of
                              None \<Rightarrow> []
                            | Some href \<Rightarrow> strip (remove_all ''tel:'' 0 href)));
          site = website_loop soup [sel_nofollow, sel_blank, sel_external];
          addr = (case soup_find soup ''address'' of
                    Some addr_tag \<Rightarrow> get_text '' '' (fst addr_tag)
                  | None \<Rightarrow>
                      (let text = soup_text soup
                       in case re_search True False POSTCODE_RE text of
                            None \<Rightarrow> []
                          | Some (idx, g, m, r) \<Rightarrow>
                              strip (take (min (length text) (idx + 80) - (idx - 80))
                                       (drop (idx - 80) text))));
          ph = (if tel_phone = []
                then (case re_search False False PHONE_RE (soup_text soup) of
                        None \<Rightarrow> []
                      | Some (idx, g, m, r) \<Rightarrow> strip m)
                else tel_phone)
      in \<lparr>phone = ph, website = site, venue_address = addr\<rparr>)"

text \<open>
  \<open>scrape_venue_info\<close>: the details and the trace. \<open>parse\<close> is the construction of the
  document from the fetched text, which may fail. The \<open>try\<close> covers the fetch and the
  parse; its handler logs and falls through to the return of \<open>out\<close>.
\<close>

type_synonym parser = "string \<Rightarrow> error + node list"

definition scrape_venue_info :: "network \<Rightarrow> (nat \<Rightarrow> real) \<Rightarrow> parser \<Rightarrow> string \<Rightarrow>
    venue \<times> event list" where
  "scrape_venue_info net jitter parse url =
     (if url = [] then (empty_venue, [])
      else
        (case fetch net jitter url 3 (14 / 10) of
           (Inl e, evs) \<Rightarrow> (empty_venue, evs @ [LogScrapeFailed url e])
         | (Inr html, evs) \<Rightarrow>
             (case parse html of
                Inl e \<Rightarrow> (empty_venue, evs @ [LogScrapeFailed url e])
              | Inr soup \<Rightarrow> (venue_of soup, evs))))"

section \<open>The orchestrator\<close>

record row =
  row_name :: string
  row_description :: string
  row_address :: string
  row_phone :: string
  row_website :: string
  row_opening_hours :: string
  row_source_link :: string

text \<open>
  The body of the loop of \<open>main\<close> for one candidate, after the pause. The call of
  \<open>scrape_venue_info\<close> returns on every input, so the handler around it is not entered.
\<close>

definition main_row :: "network \<Rightarrow> (nat \<Rightarrow> real) \<Rightarrow> parser \<Rightarrow> entry \<Rightarrow> row \<times> event list" where
  "main_row net jitter parse e =
     (if source_link e \<noteq> []
      then (case scrape_venue_info net jitter parse (source_link e) of
              (v, evs) \<Rightarrow>
                (\<lparr>row_name = name e, row_description = description e,
                  row_address = (if address e = [] then venue_address v else address e),
                  row_phone = phone v, row_website = website v,
                  row_opening_hours = opening_hours e, row_source_link = source_link e\<rparr>,
                 evs))
      else (\<lparr>row_name = name e, row_description = description e, row_address = address e,
             row_phone = [], row_website = [],
             row_opening_hours = opening_hours e, row_source_link = source_link e\<rparr>,
            []))"

text \<open>The loop over the candidates; \<open>delay idx\<close> is the pause before candidate \<open>idx\<close>\<close>

fun main_rows :: "network \<Rightarrow> (nat \<Rightarrow> real) \<Rightarrow> parser \<Rightarrow> (nat \<Rightarrow> real) \<Rightarrow> nat \<Rightarrow> entry list \<Rightarrow>
    row list \<times> event list" where
  "main_rows net jitter parse delay idx [] = ([], [])"
| "main_rows net jitter parse delay idx (e # es) =
     (case main_row net jitter parse e of
        (r, evs) \<Rightarrow>
          (case main_rows net jitter parse delay (Suc idx) es of
             (rs, evs') \<Rightarrow> (r # rs, Sleep (delay idx) # evs @ evs')))"

text \<open>
  \<open>main\<close> up to the rows it hands to the writer: \<open>Inl\<close> for an exception that leaves
  \<open>main\<close>, \<open>None\<close> for a run that ends early without rows.
\<close>

definition main :: "(string \<Rightarrow> bool) \<Rightarrow> network \<Rightarrow> (nat \<Rightarrow> real) \<Rightarrow> parser \<Rightarrow> (nat \<Rightarrow> real) \<Rightarrow>
    (error + row list option) \<times> event list" where
  "main ip_literal net jitter parse delay =
     (case fetch net jitter URL 3 (14 / 10) of
        (Inl e, evs) \<Rightarrow> (Inr None, evs @ [LogError ''Main fetch failed''])
      | (Inr html, evs) \<Rightarrow>
          (case parse html of
             Inl e \<Rightarrow> (Inl e, evs)
           | Inr soup \<Rightarrow>
               (case extract_article_entries ip_literal soup of
                  (Inl e, evs1) \<Rightarrow> (Inl e, evs @ evs1)
                | (Inr entries, evs1) \<Rightarrow>
                    if entries = []
                    then (Inr None, evs @ evs1 @ [LogWarning ''No entries extracted''])
                    else (case main_rows net jitter parse delay 1 entries of
                            (rows, evs2) \<Rightarrow> (Inr (Some rows), evs @ evs1 @ evs2)))))"

section \<open>The loops in closed form\<close>

text \<open>
  What the loop over the segments does with one segment: it keeps the segment when the
  marker is in it and the parsed name and description are not empty, and the candidate
  it appends is the parsed entry with its link resolved, unless the resolution raises.
\<close>

definition valid_segment :: "string \<Rightarrow> bool" where
  "valid_segment entry_text =
     (contains MARKER entry_text \<and> name (parse_entry entry_text) \<noteq> []
      \<and> description (parse_entry entry_text) \<noteq> [])"

definition candidate :: "(string \<Rightarrow> bool) \<Rightarrow> place list \<Rightarrow> string \<Rightarrow> error + entry" where
  "candidate ip_literal elems entry_text =
     (case find_link ip_literal (name (parse_entry entry_text)) elems of
        Inl err \<Rightarrow> Inl err
      | Inr link \<Rightarrow> Inr ((parse_entry entry_text)\<lparr>source_link := link\<rparr>))"

text \<open>A list of results in order: the values, or the first exception\<close>

fun in_order :: "(error + 'a) list \<Rightarrow> error + 'a list" where
  "in_order [] = Inr []"
| "in_order (Inl err # rs) = Inl err"
| "in_order (Inr x # rs) = (case in_order rs of Inl err \<Rightarrow> Inl err | Inr xs \<Rightarrow> Inr (x # xs))"

text \<open>The number of places in a text where a literal starts\<close>

fun occurrences :: "string \<Rightarrow> string \<Rightarrow> nat" where
  "occurrences l [] = 0"
| "occurrences l (c # cs) = (if prefix l (c # cs) then 1 else 0) + occurrences l cs"


text \<open>
  The state of the loop over the headings between two headings: the keys of the accepted
  candidates are distinct and have been seen, and every accepted candidate has a name of
  two words or more and a description.
\<close>

definition fb_inv :: "string set \<Rightarrow> entry list \<Rightarrow> bool" where
  "fb_inv seen entries =
     (distinct (map (\<lambda>e. lower (name e)) entries)
      \<and> list_all (\<lambda>e. lower (name e) \<in> seen \<and> 2 \<le> length (split_ws (name e))
                      \<and> description e \<noteq> []) entries)"

text \<open>
  The scheme and the host of the article's URL, and a link that starts with them and goes
  on with a path, a query or a fragment, or ends there
\<close>

definition article_origin :: string where
  "article_origin =
     (case urlsplit (\<lambda>host. True) URL [] of
        Inl err \<Rightarrow> []
      | Inr (scheme, netloc, rest) \<Rightarrow> scheme @ ''://'' @ netloc)"

definition anchored :: "string \<Rightarrow> bool" where
  "anchored link =
     (prefix article_origin link
      \<and> (case drop (length article_origin) link of [] \<Rightarrow> True | c # cs \<Rightarrow> c \<in> set ''/?#''))"

text \<open>
  A link that is empty or is what \<open>urljoin\<close> returns for the \<open>href\<close> of an anchor of the
  document
\<close>

definition anchor_link :: "(string \<Rightarrow> bool) \<Rightarrow> node list \<Rightarrow> string \<Rightarrow> bool" where
  "anchor_link ip_literal soup link =
     (link = [] \<or>
      list_ex (\<lambda>a. tag a = Some ''a''
                    \<and> (case attr a ''href'' of
                          None \<Rightarrow> False
                        | Some href \<Rightarrow> href \<noteq> [] \<and> urljoin ip_literal URL href = Inr link))
        (preorder soup))"

text \<open>A text that starts with digits and a period, which is where the ordinal pattern matches\<close>

definition has_ordinal :: "string \<Rightarrow> bool" where
  "has_ordinal s = (takeWhile isdigit s \<noteq> [] \<and> take 1 (dropWhile isdigit s) = ''.'')"

section \<open>Sample inputs\<close>

text \<open>A network on which every request times out, and a generator that always gives 0\<close>

definition net_down :: network where
  "net_down url attempt = Inl (TransportError ''timed out'')"

definition no_jitter :: "nat \<Rightarrow> real" where
  "no_jitter attempt = 0"

text \<open>A network that answers at once, a parser that gives a page with an address, one that fails\<close>

definition net_up :: network where
  "net_up url attempt = Inr ''<address>9 Mill Lane</address>''"

definition page_parser :: parser where
  "page_parser html = Inr [Elem ''address'' [] [Text NavigableString ''9 Mill Lane'']]"

definition bad_parser :: parser where
  "bad_parser html = Inl (ParseError ''rejected'')"

text \<open>A candidate with every field filled\<close>

definition cand_full :: entry where
  "cand_full = \<lparr>name = ''Bean Bar'', description = ''Small and busy.'',
     address = ''12 High St'', opening_hours = ''9-5 daily'',
     source_link = ''https://www.timeout.com/london/venue/bean-bar''\<rparr>"

text \<open>Scenario A of the specification: the line before the marker, and the segment from it\<close>

definition segment_A :: string where
  "segment_A = ''What is it?'' @ [CHR 0x0A] @ ''A cosy nook.'' @ [CHR 0x0A]
     @ ''Address: 12 High St'' @ [CHR 0x0A] @ ''Opening hours: 9-5 daily'' @ [CHR 0x0A]"

definition head_A :: string where
  "head_A = ''1. Bluebird Caf'' @ [CHR 0xE9, CHR 0x0A]"

definition scenario_A :: string where
  "scenario_A = head_A @ segment_A"

text \<open>Documents: the same name under two headings, a heading of one word\<close>

definition long_text :: string where
  "long_text = ''A bright room with long tables and good vegetarian food all day.''"

definition body_twice :: node where
  "body_twice = Elem ''body'' []
     [Elem ''h2'' [] [Text NavigableString ''1. Bean Bar''], Elem ''p'' [] [Text NavigableString long_text],
      Elem ''h2'' [] [Text NavigableString ''2. BEAN BAR''], Elem ''p'' [] [Text NavigableString long_text]]"

definition doc_twice :: "node list" where
  "doc_twice = [body_twice]"

definition doc_one_word :: "node list" where
  "doc_one_word = [Elem ''body'' []
     [Elem ''h2'' [] [Text NavigableString ''Monmouth''], Elem ''p'' [] [Text NavigableString long_text]]]"

text \<open>A fragment with no main, article or body element\<close>

definition doc_no_region :: "node list" where
  "doc_no_region =
     [Elem ''h2'' [] [Text NavigableString ''The Gallery Room''], Elem ''p'' [] [Text NavigableString long_text]]"

text \<open>A heading whose anchor points at a venue page on another host\<close>

definition doc_external :: "node list" where
  "doc_external = [Elem ''body'' []
     [Elem ''h2'' [] [Elem ''a'' [(''href'', ''http://example.com/venue/gallery'')]
                        [Text NavigableString ''The Gallery Room'']],
      Elem ''p'' [] [Text NavigableString long_text]]]"

text \<open>Scenario A as a page: the text in one paragraph of the body\<close>

definition doc_A :: "node list" where
  "doc_A = [Elem ''body'' [] [Elem ''p'' [] [Text NavigableString scenario_A]]]"



section \<open>White space and the matcher\<close>

lemma strip_head: "dropWhile isspace (strip s) = strip s"
proof -
  define u where "u = dropWhile isspace s"
  have "u = rev (dropWhile isspace (rev u)) @ rev (takeWhile isspace (rev u))"
    by (metis rev_append rev_rev_ident takeWhile_dropWhile_id)
  then have split: "u = strip s @ rev (takeWhile isspace (rev u))"
    by (simp add: strip_def u_def)
  show ?thesis
  proof (cases "strip s")
    case Nil
    then show ?thesis by simp
  next
    case (Cons c cs)
    with split have "u = c # (cs @ rev (takeWhile isspace (rev u)))" by simp
    then have "u \<noteq> []" and "hd u = c" by (metis list.distinct(1), metis list.sel(1))
    then have "\<not> isspace c" unfolding u_def using hd_dropWhile by blast
    with Cons show ?thesis by simp
  qed
qed

lemma strip_idem: "strip (strip s) = strip s"
proof -
  have "strip (strip s) = rev (dropWhile isspace (rev (strip s)))"
    unfolding strip_def [of "strip s"] strip_head ..
  also have "\<dots> = strip s" by (simp add: strip_def)
  finally show ?thesis .
qed

lemma length_strip: "length (strip s) \<le> length s"
  unfolding strip_def
  by (metis length_dropWhile_le length_rev le_trans)

lemma run_len_le: "run_len P hi s \<le> length s"
  by (induction P hi s rule: run_len.induct) auto

lemma first_of_SomeD: "first_of (map f xs) = Some y \<Longrightarrow> \<exists>x\<in>set xs. f x = Some y"
proof (induction xs)
  case Nil
  then show ?case by simp
next
  case (Cons x xs)
  then show ?case by (cases "f x") auto
qed

lemma lit_match_length: "lit_match ic l s = Some r \<Longrightarrow> length r + length l = length s"
  by (induction ic l s rule: lit_match.induct) (auto split: if_splits)

text \<open>A match consumes a prefix of the text: what is left is not longer than the text\<close>

lemma rmatch_length: "rmatch ic da p s = Some (g, r) \<Longrightarrow> length r \<le> length s"
proof (induction ic da p s arbitrary: g r rule: rmatch.induct)
  case (2 ic da l "is" s)
  from "2.prems" obtain r' where r': "lit_match ic l s = Some r'" "rmatch ic da is r' = Some (g, r)"
    by (auto split: option.splits)
  from "2.IH" [OF r'] lit_match_length [OF r'(1)] show ?case by simp
next
  case (3 ic da cap c lo hi greedy "is" s)
  from first_of_SomeD [OF "3.prems" [simplified]]
  obtain k where k: "k \<in> set (counts greedy lo (run_len (cls_ok ic da c) hi s))"
    and m: "(case rmatch ic da is (drop k s) of None \<Rightarrow> None
             | Some (g, r) \<Rightarrow> Some (if cap then Some (take k s) else g, r)) = Some (g, r)"
    by blast
  from m obtain g' where "rmatch ic da is (drop k s) = Some (g', r)"
    by (auto split: option.splits)
  from "3.IH" [OF k this] show ?case by simp
next
  case (5 ic da alts "is" s)
  from first_of_SomeD [OF "5.prems" [simplified]]
  obtain a where a: "a \<in> set alts" and m: "rmatch ic da (a @ is) s = Some (g, r)"
    by blast
  from "5.IH" [OF a m] show ?case .
qed (auto split: option.splits if_splits)

text \<open>A match of the ordinal pattern removes at least a digit\<close>

lemma ordinal_shorter:
  assumes "rmatch False False ORDINAL s = Some (g, r)"
  shows "length r < length s"
proof -
  from assms have "first_of (map
       (\<lambda>k. case rmatch False False [Lit ''.'', Rep False Space 0 None True] (drop k s) of
               None \<Rightarrow> None
             | Some (g, r) \<Rightarrow> Some (if False then Some (take k s) else g, r))
       (counts True 1 (run_len (cls_ok False False Digit) None s))) = Some (g, r)"
    by (simp only: ORDINAL_def rmatch.simps)
  from first_of_SomeD [OF this]
  obtain k g' where k: "k \<in> set (counts True 1 (run_len (cls_ok False False Digit) None s))"
    and m: "rmatch False False [Lit ''.'', Rep False Space 0 None True] (drop k s) = Some (g', r)"
    by (auto split: option.splits)
  from k have "1 \<le> k" "k \<le> length s"
    using run_len_le [of "cls_ok False False Digit" None s] by (auto simp: counts_def)
  moreover from rmatch_length [OF m] have "length r \<le> length s - k" by simp
  ultimately show ?thesis by linarith
qed

section \<open>Stripping the ordinal prefix\<close>

lemma run_len_takeWhile: "run_len P None s = length (takeWhile P s)"
  by (induction s) auto

lemma first_of_None_iff: "first_of (map f xs) = None \<longleftrightarrow> (\<forall>x\<in>set xs. f x = None)"
proof (induction xs)
  case Nil
  show ?case by simp
next
  case (Cons x xs)
  then show ?case by (cases "f x") auto
qed

lemma spaces_match: "rmatch False False [Rep False Space 0 None True] r \<noteq> None"
  by (simp add: first_of_None_iff counts_def)

lemma dot_spaces_match:
  "rmatch False False [Lit ''.'', Rep False Space 0 None True] t \<noteq> None \<longleftrightarrow> take 1 t = ''.''"
proof (cases t)
  case Nil
  then show ?thesis by simp
next
  case (Cons c cs)
  show ?thesis
  proof (cases "c = CHR ''.''")
    case True
    with Cons spaces_match [of cs] show ?thesis
      by (simp add: chr_eq_def del: rmatch.simps(3))
  next
    case False
    with Cons show ?thesis by (simp add: chr_eq_def)
  qed
qed

text \<open>The ordinal pattern matches exactly the texts that start with digits and a period\<close>

lemma ordinal_match_iff: "rmatch False False ORDINAL s \<noteq> None \<longleftrightarrow> has_ordinal s"
proof -
  define n where "n = length (takeWhile isdigit s)"
  have digit: "take 1 (drop k s) \<noteq> ''.''" if "k < n" for k
  proof -
    from that have k: "k < length (takeWhile isdigit s)" by (simp add: n_def)
    then have "isdigit (takeWhile isdigit s ! k)" using nth_mem set_takeWhileD by metis
    moreover from k have "takeWhile isdigit s ! k = s ! k" by (rule takeWhile_nth)
    moreover from k have "k < length s" using length_takeWhile_le [of isdigit s] by simp
    ultimately have "isdigit (hd (drop k s))" "drop k s \<noteq> []" by (simp_all add: hd_drop_conv_nth)
    moreover have "\<not> isdigit CHR ''.''" by (simp add: isdigit_def)
    ultimately show ?thesis by (cases "drop k s") auto
  qed
  have cls: "cls_ok False False Digit = isdigit" by (rule ext) simp
  define F where "F = (\<lambda>k. case rmatch False False [Lit ''.'', Rep False Space 0 None True] (drop k s) of
               None \<Rightarrow> None
             | Some (g, r) \<Rightarrow> Some (if False then Some (take k s) else g, r))"
  have F: "F k = None \<longleftrightarrow>
      rmatch False False [Lit ''.'', Rep False Space 0 None True] (drop k s) = None" for k
    by (simp add: F_def split: option.splits)
  have "rmatch False False ORDINAL s = first_of (map F (rev [1..<Suc n]))"
    by (simp only: ORDINAL_def rmatch.simps counts_def cls run_len_takeWhile n_def F_def if_True)
  then have "rmatch False False ORDINAL s = None \<longleftrightarrow> (\<forall>k\<in>set (rev [1..<Suc n]). F k = None)"
    by (simp only: first_of_None_iff)
  also have "\<dots> \<longleftrightarrow> (\<forall>k\<in>{1..n}.
      rmatch False False [Lit ''.'', Rep False Space 0 None True] (drop k s) = None)"
    by (simp only: F set_rev set_upt atLeastLessThanSuc_atLeastAtMost)
  finally have "rmatch False False ORDINAL s \<noteq> None
      \<longleftrightarrow> (\<exists>k\<in>{1..n}. rmatch False False [Lit ''.'', Rep False Space 0 None True] (drop k s) \<noteq> None)"
    by (simp del: rmatch.simps)
  also have "\<dots> \<longleftrightarrow> (\<exists>k\<in>{1..n}. take 1 (drop k s) = ''.'')"
    by (simp only: dot_spaces_match)
  also have "\<dots> \<longleftrightarrow> 1 \<le> n \<and> take 1 (drop n s) = ''.''"
  proof
    assume "\<exists>k\<in>{1..n}. take 1 (drop k s) = ''.''"
    then obtain k where k: "1 \<le> k" "k \<le> n" "take 1 (drop k s) = ''.''" by auto
    with digit [of k] have "k = n" by (cases "k < n") auto
    with k show "1 \<le> n \<and> take 1 (drop n s) = ''.''" by simp
  next
    assume "1 \<le> n \<and> take 1 (drop n s) = ''.''"
    then show "\<exists>k\<in>{1..n}. take 1 (drop k s) = ''.''" by auto
  qed
  also have "\<dots> \<longleftrightarrow> has_ordinal s"
    by (auto simp: has_ordinal_def n_def dropWhile_eq_drop Suc_le_eq)
  finally show ?thesis .
qed

lemma strip_ordinal_again:
  "strip_ordinal (strip_ordinal s) = strip_ordinal s
   \<longleftrightarrow> rmatch False False ORDINAL (strip_ordinal s) = None"
proof (cases "rmatch False False ORDINAL (strip_ordinal s)")
  case None
  then have "strip_ordinal (strip_ordinal s) = strip (strip_ordinal s)"
    by (simp add: strip_ordinal_def [of "strip_ordinal s"] sub_prefix_def)
  also have "\<dots> = strip_ordinal s" by (simp add: strip_ordinal_def [of s] strip_idem)
  finally show ?thesis using None by simp
next
  case (Some a)
  obtain g r where a: "a = (g, r)" by (cases a)
  from ordinal_shorter [OF Some [unfolded a]] have "length r < length (strip_ordinal s)" .
  moreover have "strip_ordinal (strip_ordinal s) = strip r"
    using Some a by (simp add: strip_ordinal_def [of "strip_ordinal s"] sub_prefix_def)
  ultimately have "length (strip_ordinal (strip_ordinal s)) < length (strip_ordinal s)"
    using length_strip [of r] by simp
  then show ?thesis using Some by auto
qed

text \<open>
  C5, as the code has it. The pattern is removed once, at the start. Cleaning a cleaned
  name gives the same name exactly when the cleaned name does not itself start with
  digits and a period; these are the texts that the pattern matches.
\<close>

theorem strip_ordinal_twice:
  "(strip_ordinal (strip_ordinal s) = strip_ordinal s) = (\<not> has_ordinal (strip_ordinal s))
   \<and> has_ordinal s = (rmatch False False ORDINAL s \<noteq> None)"
  using strip_ordinal_again [of s] ordinal_match_iff [of "strip_ordinal s"] ordinal_match_iff [of s]
  by blast

theorem strip_ordinal_twice_witness:
  "strip_ordinal (strip_ordinal ''1. Bean Bar'') = strip_ordinal ''1. Bean Bar''
   \<and> has_ordinal (strip_ordinal ''1. Bean Bar'') = False
   \<and> strip_ordinal ''1. Bean Bar'' = ''Bean Bar''"
proof -
  have "has_ordinal (strip_ordinal ''1. Bean Bar'') = False" "strip_ordinal ''1. Bean Bar'' = ''Bean Bar''"
    by code_simp+
  with strip_ordinal_twice [of "''1. Bean Bar''"] show ?thesis by simp
qed

text \<open>
  C5, as the claim states it, fails: a name with two ordinal prefixes loses the first in
  one cleaning and the second in the next.
\<close>

theorem strip_ordinal_not_idempotent:
  "strip_ordinal (strip_ordinal ''1. 2. Bean Bar'') \<noteq> strip_ordinal ''1. 2. Bean Bar''"
  by code_simp

section \<open>The fetcher on a failing network\<close>

lemma fetch_loop_all_fail:
  "\<forall>a\<in>set as. \<exists>e. net url a = Inl e \<Longrightarrow>
   fetch_loop net jitter url backoff as lx =
     ((if as = [] then (case lx of None \<Rightarrow> Inl TypeError | Some e \<Rightarrow> Inl e)
       else net url (last as)),
      concat (map (\<lambda>a. [Get url,
                         LogFetchFailed a url (projl (net url a)) (backoff ^ a + jitter a),
                         Sleep (backoff ^ a + jitter a)]) as))"
proof (induction as arbitrary: lx)
  case Nil
  then show ?case by (simp split: option.splits)
next
  case (Cons a as)
  then obtain e where e: "net url a = Inl e" by auto
  from Cons.prems have rest: "\<forall>a\<in>set as. \<exists>e. net url a = Inl e" by simp
  show ?case using Cons.IH [OF rest, of "Some e"] e by (simp add: Let_def)
qed

lemma gets_concat:
  "gets (concat (map (\<lambda>a. [Get url, LogFetchFailed a url (f a) (w a), Sleep (w a)]) as))
   = length as"
  by (induction as) auto

lemma waits_concat:
  "waits (concat (map (\<lambda>a. [Get url, LogFetchFailed a url (f a) (w a), Sleep (w a)]) as))
   = map (\<lambda>a. (a, w a)) as"
  by (induction as) auto

lemma fetch_loop_raises_iff:
  "(\<exists>e. fst (fetch_loop net jitter url backoff as lx) = Inl e)
   \<longleftrightarrow> (\<forall>a\<in>set as. \<exists>e. net url a = Inl e)"
proof (induction as arbitrary: lx)
  case Nil
  then show ?case by (simp split: option.splits)
next
  case (Cons a as)
  show ?case
  proof (cases "net url a")
    case (Inl e)
    then show ?thesis using Cons.IH [of "Some e"] by (simp add: Let_def split_beta)
  next
    case (Inr t)
    then show ?thesis by simp
  qed
qed

lemma pow_increasing: "1 < (b::real) \<Longrightarrow> sorted_wrt (<) (map (\<lambda>a. b ^ a) [m..<n])"
  by (simp add: sorted_wrt_map sorted_wrt_iff_nth_less)

lemma fetch_all_fail:
  assumes fail: "\<forall>a\<in>{1..retries}. \<exists>e. net url a = Inl e"
    and r: "1 \<le> retries" and b: "1 < backoff"
  shows "gets (snd (fetch net jitter url retries backoff)) = retries
       \<and> map fst (waits (snd (fetch net jitter url retries backoff))) = [1..<Suc retries]
       \<and> (\<forall>(a, w)\<in>set (waits (snd (fetch net jitter url retries backoff))).
            w = backoff ^ a + jitter a)
       \<and> sorted_wrt (<) (map (\<lambda>(a, w). w - jitter a)
            (waits (snd (fetch net jitter url retries backoff))))
       \<and> fst (fetch net jitter url retries backoff) = net url retries"
proof -
  from fail have f: "\<forall>a\<in>set [1..<Suc retries]. \<exists>e. net url a = Inl e" by auto
  have ne: "[1..<Suc retries] \<noteq> []" using r by simp
  have l: "last [1..<Suc retries] = retries" using r by simp
  note eq = fetch_loop_all_fail [where as = "[1..<Suc retries]" and lx = None
      and jitter = jitter and backoff = backoff and net = net and url = url, OF f]
  have w: "waits (snd (fetch net jitter url retries backoff))
      = map (\<lambda>a. (a, backoff ^ a + jitter a)) [1..<Suc retries]"
    unfolding fetch_def eq by (simp only: snd_conv waits_concat)
  have g: "gets (snd (fetch net jitter url retries backoff)) = retries"
    unfolding fetch_def eq by (simp only: snd_conv gets_concat) simp
  have res: "fst (fetch net jitter url retries backoff) = net url retries"
    unfolding fetch_def eq using ne l by simp
  have s: "sorted_wrt (<) (map (\<lambda>(a, w). w - jitter a)
      (waits (snd (fetch net jitter url retries backoff))))"
    unfolding w using pow_increasing [OF b, of 1 "Suc retries"] by (simp add: comp_def)
  have m: "map fst (waits (snd (fetch net jitter url retries backoff))) = [1..<Suc retries]"
    unfolding w by (simp add: comp_def)
  have v: "\<forall>(a, w)\<in>set (waits (snd (fetch net jitter url retries backoff))).
      w = backoff ^ a + jitter a"
    unfolding w by auto
  from g m v s res show ?thesis by blast
qed

text \<open>
  C9. With at least one attempt configured and a base above 1 (the program runs with 3
  and 1.4): when every attempt on a URL fails, the trace has exactly \<open>retries\<close> requests,
  the logged attempts are 1 to \<open>retries\<close>, each wait is the power of the base plus the
  jitter, the waits without the jitter are strictly increasing, and the failure of the
  last attempt is what the caller gets. The call raises exactly when every attempt fails.
\<close>

theorem fetch_retries:
  assumes "1 \<le> retries" and "1 < backoff"
  shows "((\<forall>a\<in>{1..retries}. \<exists>e. net url a = Inl e) \<longrightarrow>
            gets (snd (fetch net jitter url retries backoff)) = retries
          \<and> map fst (waits (snd (fetch net jitter url retries backoff))) = [1..<Suc retries]
          \<and> (\<forall>(a, w)\<in>set (waits (snd (fetch net jitter url retries backoff))).
               w = backoff ^ a + jitter a)
          \<and> sorted_wrt (<) (map (\<lambda>(a, w). w - jitter a)
               (waits (snd (fetch net jitter url retries backoff))))
          \<and> fst (fetch net jitter url retries backoff) = net url retries)
       \<and> ((\<exists>e. fst (fetch net jitter url retries backoff) = Inl e)
            \<longleftrightarrow> (\<forall>a\<in>{1..retries}. \<exists>e. net url a = Inl e))"
proof -
  have "(\<exists>e. fst (fetch net jitter url retries backoff) = Inl e)
      \<longleftrightarrow> (\<forall>a\<in>{1..retries}. \<exists>e. net url a = Inl e)"
    unfolding fetch_def fetch_loop_raises_iff by auto
  with fetch_all_fail [OF _ assms, of net url jitter] show ?thesis by blast
qed

theorem fetch_retries_witness:
  "(1::nat) \<le> 3 \<and> (1::real) < 14 / 10
   \<and> net_down URL 1 = Inl (TransportError ''timed out'')
   \<and> net_down URL 2 = Inl (TransportError ''timed out'')
   \<and> net_down URL 3 = Inl (TransportError ''timed out'')
   \<and> gets (snd (fetch net_down no_jitter URL 3 (14 / 10))) = 3
   \<and> map fst (waits (snd (fetch net_down no_jitter URL 3 (14 / 10)))) = [1..<Suc 3]
   \<and> fst (fetch net_down no_jitter URL 3 (14 / 10)) = Inl (TransportError ''timed out'')"
proof -
  have h: "\<forall>a\<in>{1..3}. \<exists>e. net_down URL a = Inl e" by (simp add: net_down_def)
  from fetch_retries [of 3 "14 / 10" net_down URL no_jitter] h
  show ?thesis by (simp add: net_down_def)
qed


section \<open>The orchestrator's merge and the enricher\<close>

lemma main_rows_map:
  "fst (main_rows net jitter parse delay idx es) = map (\<lambda>e. fst (main_row net jitter parse e)) es"
proof (induction es arbitrary: idx)
  case Nil
  show ?case by simp
next
  case (Cons e es)
  obtain r evs where r: "main_row net jitter parse e = (r, evs)" by (cases "main_row net jitter parse e")
  obtain rs evs' where rs: "main_rows net jitter parse delay (Suc idx) es = (rs, evs')"
    by (cases "main_rows net jitter parse delay (Suc idx) es")
  from Cons.IH [of "Suc idx"] rs have "rs = map (\<lambda>e. fst (main_row net jitter parse e)) es" by simp
  with r rs show ?case by simp
qed

text \<open>
  C7. The row of a candidate keeps the candidate's address when it is not empty; the
  address of the venue page is used only when the candidate has none (and a link to
  fetch). Name, description, opening hours and link go into the row as they are, and the
  rows of a run are the rows of its candidates, in order.
\<close>

theorem merge_fills_gaps_only:
  "(address e \<noteq> [] \<longrightarrow> row_address (fst (main_row net jitter parse e)) = address e)
   \<and> (address e = [] \<longrightarrow> row_address (fst (main_row net jitter parse e)) =
         (if source_link e = [] then []
          else venue_address (fst (scrape_venue_info net jitter parse (source_link e)))))
   \<and> row_name (fst (main_row net jitter parse e)) = name e
   \<and> row_description (fst (main_row net jitter parse e)) = description e
   \<and> row_opening_hours (fst (main_row net jitter parse e)) = opening_hours e
   \<and> row_source_link (fst (main_row net jitter parse e)) = source_link e
   \<and> fst (main_rows net jitter parse delay idx es)
       = map (\<lambda>e. fst (main_row net jitter parse e)) es"
  by (simp add: main_row_def main_rows_map split: prod.splits)

lemma venue_page: "venue_of [Elem ''address'' [] [Text NavigableString ''9 Mill Lane'']] = \<lparr>phone = [], website = [], venue_address = ''9 Mill Lane''\<rparr>"
  by code_simp

lemma fetch_up: "fetch net_up jitter u 3 b = (Inr ''<address>9 Mill Lane</address>'', [Get u])"
  by (simp add: fetch_def net_up_def upt_rec)

theorem merge_fills_gaps_only_witness:
  "address cand_full \<noteq> []
   \<and> venue_address (fst (scrape_venue_info net_up no_jitter page_parser (source_link cand_full))) = ''9 Mill Lane''
   \<and> row_address (fst (main_row net_up no_jitter page_parser cand_full)) = ''12 High St''
   \<and> row_name (fst (main_row net_up no_jitter page_parser cand_full)) = ''Bean Bar''"
proof -
  have "venue_address (fst (scrape_venue_info net_up no_jitter page_parser (source_link cand_full))) = ''9 Mill Lane''"
    by (simp add: scrape_venue_info_def fetch_up page_parser_def venue_page cand_full_def)
  with merge_fills_gaps_only [of cand_full net_up no_jitter page_parser]
  show ?thesis by (simp add: cand_full_def)
qed

text \<open>
  C8. \<open>scrape_venue_info\<close> returns details on every input. With an empty URL it returns
  the empty details and does nothing else: no request, no log record. When the fetch
  fails, or the fetched text cannot be parsed, it returns the empty details and the last
  record of its trace is the log of that failure.
\<close>

theorem scrape_never_raises:
  "(url = [] \<longrightarrow> scrape_venue_info net jitter parse url = (empty_venue, []))
   \<and> (\<forall>e. url \<noteq> [] \<and> fst (fetch net jitter url 3 (14 / 10)) = Inl e \<longrightarrow>
         scrape_venue_info net jitter parse url
           = (empty_venue, snd (fetch net jitter url 3 (14 / 10)) @ [LogScrapeFailed url e]))
   \<and> (\<forall>html e. url \<noteq> [] \<and> fst (fetch net jitter url 3 (14 / 10)) = Inr html
         \<and> parse html = Inl e \<longrightarrow>
         scrape_venue_info net jitter parse url
           = (empty_venue, snd (fetch net jitter url 3 (14 / 10)) @ [LogScrapeFailed url e]))
   \<and> (\<forall>html soup. url \<noteq> [] \<and> fst (fetch net jitter url 3 (14 / 10)) = Inr html
         \<and> parse html = Inr soup \<longrightarrow>
         scrape_venue_info net jitter parse url
           = (venue_of soup, snd (fetch net jitter url 3 (14 / 10))))"
  by (auto simp: scrape_venue_info_def split: prod.splits sum.splits)

lemma fetch_down: "fst (fetch net_down jitter u 3 b) = Inl (TransportError ''timed out'')"
  by (simp add: fetch_def net_down_def upt_rec Let_def split_beta)

theorem scrape_never_raises_witness:
  "scrape_venue_info net_down no_jitter page_parser [] = (empty_venue, [])
   \<and> fst (scrape_venue_info net_down no_jitter page_parser ''https://www.timeout.com/london/venue/bean-bar'') = empty_venue
   \<and> last (snd (scrape_venue_info net_down no_jitter page_parser ''https://www.timeout.com/london/venue/bean-bar''))
        = LogScrapeFailed ''https://www.timeout.com/london/venue/bean-bar'' (TransportError ''timed out'')
   \<and> scrape_venue_info net_up no_jitter bad_parser ''https://www.timeout.com/london/venue/bean-bar''
        = (empty_venue, [Get ''https://www.timeout.com/london/venue/bean-bar'',
             LogScrapeFailed ''https://www.timeout.com/london/venue/bean-bar'' (ParseError ''rejected'')])"
proof -
  note a = scrape_never_raises [of "[]" net_down no_jitter page_parser]
  note b = scrape_never_raises [of "''https://www.timeout.com/london/venue/bean-bar''" net_down no_jitter page_parser]
  note c = scrape_never_raises [of "''https://www.timeout.com/london/venue/bean-bar''" net_up no_jitter bad_parser]
  from a b c show ?thesis by (simp add: fetch_down fetch_up bad_parser_def)
qed

section \<open>Cutting at the marker\<close>

lemma lit_match_prefix: "lit_match False l s \<noteq> None \<longleftrightarrow> prefix l s"
  by (induction "False" l s rule: lit_match.induct) (auto simp: chr_eq_def)

lemma ahead_lit: "rmatch False False [Ahead [[Lit l]]] s \<noteq> None \<longleftrightarrow> prefix l s"
  using lit_match_prefix [of l s] by (auto split: option.splits)

lemma split_ahead_ne: "split_ahead l s \<noteq> []"
  by (cases s) (auto split: list.splits simp del: rmatch.simps)

lemma split_ahead_Cons:
  "\<exists>p ps. split_ahead l cs = p # ps
     \<and> split_ahead l (c # cs) = (if prefix l (c # cs) then [] # (c # p) # ps else (c # p) # ps)"
proof -
  obtain p ps where p: "split_ahead l cs = p # ps"
    using split_ahead_ne [of l cs] by (cases "split_ahead l cs") auto
  have m: "(rmatch False False [Ahead [[Lit l]]] (c # cs) \<noteq> None) = prefix l (c # cs)"
    by (rule ahead_lit)
  have "split_ahead l (c # cs) = (if prefix l (c # cs) then [] # (c # p) # ps else (c # p) # ps)"
    by (simp only: split_ahead.simps(2) p list.case m)
  with p show ?thesis by blast
qed

lemma concat_split_ahead: "concat (split_ahead l s) = s"
proof (induction s)
  case Nil
  show ?case by simp
next
  case (Cons c cs)
  from split_ahead_Cons [of l cs c] Cons show ?case by auto
qed

lemma length_split_ahead: "length (split_ahead l s) = Suc (occurrences l s)"
proof (induction s)
  case Nil
  show ?case by simp
next
  case (Cons c cs)
  from split_ahead_Cons [of l cs c] Cons show ?case by auto
qed







section \<open>The loop over the segments\<close>

lemma in_order_Inr: "in_order rs = Inr xs \<Longrightarrow> rs = map Inr xs"
proof (induction rs arbitrary: xs)
  case Nil
  then show ?case by simp
next
  case (Cons r rs)
  then show ?case by (cases r) (auto split: sum.splits)
qed

lemma in_order_map_Inr: "in_order (map Inr xs) = Inr xs"
  by (induction xs) auto


lemma entries_loop_closed:
  "length acc < MAX_ITEMS \<Longrightarrow>
   entries_loop ip elems segs acc =
     (case in_order (take (MAX_ITEMS - length acc)
                       (map (candidate ip elems) (filter valid_segment segs))) of
        Inl err \<Rightarrow> Inl err
      | Inr es \<Rightarrow> Inr (acc @ es))"
proof (induction segs arbitrary: acc)
  case Nil
  then show ?case by simp
next
  case (Cons seg segs)
  from Cons.prems obtain k where k: "MAX_ITEMS - length acc = Suc k"
    by (cases "MAX_ITEMS - length acc") auto
  show ?case
  proof (cases "valid_segment seg")
    case False
    then have "entries_loop ip elems (seg # segs) acc = entries_loop ip elems segs acc"
      by (auto simp: valid_segment_def Let_def)
    with Cons False show ?thesis by simp
  next
    case True
    show ?thesis
    proof (cases "find_link ip (name (parse_entry seg)) elems")
      case (Inl err)
      with True have "entries_loop ip elems (seg # segs) acc = Inl err"
        by (simp add: valid_segment_def Let_def)
      moreover from Inl have "candidate ip elems seg = Inl err" by (simp add: candidate_def)
      ultimately show ?thesis using True k by simp
    next
      case (Inr link)
      define e where "e = (parse_entry seg)\<lparr>source_link := link\<rparr>"
      from Inr have cand: "candidate ip elems seg = Inr e" by (simp add: candidate_def e_def)
      from True Inr have step: "entries_loop ip elems (seg # segs) acc =
          (if MAX_ITEMS \<le> length (acc @ [e]) then Inr (acc @ [e])
           else entries_loop ip elems segs (acc @ [e]))"
        by (simp add: valid_segment_def Let_def e_def)
      show ?thesis
      proof (cases "MAX_ITEMS \<le> length (acc @ [e])")
        case full: True
        with k have "k = 0" by simp
        with step full True cand k show ?thesis by simp
      next
        case more: False
        then have lt: "length (acc @ [e]) < MAX_ITEMS" by simp
        from k have k': "MAX_ITEMS - length (acc @ [e]) = k" by simp
        from Cons.IH [OF lt] step more True cand k k' show ?thesis
          by (simp split: sum.splits)
      qed
    qed
  qed
qed

lemma entries_of_text_closed:
  "entries_of_text ip elems text
     = in_order (take MAX_ITEMS (map (candidate ip elems)
                                    (filter valid_segment (split_ahead MARKER text))))"
  unfolding entries_of_text_def
  using entries_loop_closed [of "[]" ip elems "split_ahead MARKER text"]
  by (simp add: MAX_ITEMS_def split: sum.splits)





lemma no_marker_no_entries: "\<not> contains MARKER text \<Longrightarrow> entries_of_text ip elems text = Inr []"
proof -
  assume n: "\<not> contains MARKER text"
  have "filter valid_segment (split_ahead MARKER text) = []"
  proof -
    obtain p ps where p: "split_ahead MARKER text = p # ps"
      using split_ahead_ne [of MARKER "text"] by (cases "split_ahead MARKER text") auto
    have "occurrences l s = 0" if "\<not> contains l s" for l s
      using that by (induction s) auto
    with n length_split_ahead [of MARKER "text"] p have "ps = []" by simp
    with p concat_split_ahead [of MARKER "text"] have "p = text" by simp
    with p \<open>ps = []\<close> n show ?thesis by (simp add: valid_segment_def)
  qed
  then show ?thesis by (simp add: entries_of_text_closed)
qed

section \<open>The loop over the headings\<close>

lemma heading_entry_fields:
  "heading_entry ip h nm = Inr (Some e) \<Longrightarrow> name e = nm \<and> description e \<noteq> []"
  by (auto simp: heading_entry_def Let_def split: if_splits sum.splits)

text \<open>
  One turn of the loop: the heading is skipped, or its key is new and its name has two
  words or more; then the exception of the heading leaves the loop, or the key is
  recorded and the candidate, if the heading gives one, is appended.
\<close>

lemma headings_loop_step:
  "headings_loop ip (h # hs) seen entries = headings_loop ip hs seen entries
   \<or> (\<exists>nm. lower nm \<notin> seen \<and> 2 \<le> length (split_ws nm)
         \<and> ((\<exists>err. heading_entry ip h nm = Inl err
                 \<and> headings_loop ip (h # hs) seen entries = Inl err)
            \<or> (\<exists>es'. (es' = entries \<or> (\<exists>e. heading_entry ip h nm = Inr (Some e) \<and> es' = entries @ [e]))
                 \<and> headings_loop ip (h # hs) seen entries =
                     (if MAX_ITEMS \<le> length es' then Inr es'
                      else headings_loop ip hs (insert (lower nm) seen) es'))))"
proof -
  define name0 where "name0 = get_text '' '' (fst h)"
  define nm where "nm = strip_ordinal name0"
  show ?thesis
  proof (cases "name0 = [] \<or> 100 < length name0 \<or> list_ex (\<lambda>x. contains x (lower name0)) GENERIC
                \<or> lower nm \<in> seen \<or> length (split_ws nm) < 2")
    case True
    then have "headings_loop ip (h # hs) seen entries = headings_loop ip hs seen entries"
      by (auto simp: Let_def name0_def nm_def)
    then show ?thesis ..
  next
    case False
    then have new: "lower nm \<notin> seen" "2 \<le> length (split_ws nm)" by auto
    show ?thesis
    proof (cases "heading_entry ip h nm")
      case (Inl err)
      with False have "headings_loop ip (h # hs) seen entries = Inl err"
        by (simp add: Let_def name0_def nm_def)
      with Inl new show ?thesis by blast
    next
      case (Inr found)
      define es' where "es' = (case found of None \<Rightarrow> entries | Some e \<Rightarrow> entries @ [e])"
      from False Inr have eq: "headings_loop ip (h # hs) seen entries =
               (if MAX_ITEMS \<le> length es' then Inr es'
                else headings_loop ip hs (insert (lower nm) seen) es')"
        by (simp add: Let_def name0_def nm_def es'_def)
      have "es' = entries \<or> (\<exists>e. heading_entry ip h nm = Inr (Some e) \<and> es' = entries @ [e])"
        using Inr by (auto simp: es'_def split: option.splits)
      with eq new show ?thesis by blast
    qed
  qed
qed

lemma headings_loop_cases:
  obtains (skip) "headings_loop ip (h # hs) seen entries = headings_loop ip hs seen entries"
  | (raise) nm err where "lower nm \<notin> seen" "2 \<le> length (split_ws nm)"
      "heading_entry ip h nm = Inl err" "headings_loop ip (h # hs) seen entries = Inl err"
  | (go) nm es' where "lower nm \<notin> seen" "2 \<le> length (split_ws nm)"
      "es' = entries \<or> (\<exists>e. heading_entry ip h nm = Inr (Some e) \<and> es' = entries @ [e])"
      "headings_loop ip (h # hs) seen entries =
         (if MAX_ITEMS \<le> length es' then Inr es'
          else headings_loop ip hs (insert (lower nm) seen) es')"
  using headings_loop_step [of ip h hs seen entries] by blast

lemma fb_inv_add:
  assumes "fb_inv seen entries" "lower nm \<notin> seen" "2 \<le> length (split_ws nm)"
    and "es' = entries \<or> (\<exists>e. heading_entry ip h nm = Inr (Some e) \<and> es' = entries @ [e])"
  shows "fb_inv (insert (lower nm) seen) es'"
  using assms by (auto simp: fb_inv_def list_all_iff dest!: heading_entry_fields)

lemma headings_loop_inv:
  "fb_inv seen entries \<Longrightarrow> length entries < MAX_ITEMS \<Longrightarrow>
   headings_loop ip hs seen entries = Inr res \<Longrightarrow>
   (\<exists>seen'. fb_inv seen' res) \<and> length res \<le> MAX_ITEMS"
proof (induction hs arbitrary: seen entries)
  case Nil
  then show ?case by auto
next
  case (Cons h hs)
  show ?case
  proof (cases rule: headings_loop_cases [of ip h hs seen entries])
    case skip
    with Cons.IH [OF Cons.prems(1,2)] Cons.prems(3) show ?thesis by simp
  next
    case (raise nm err)
    with Cons.prems(3) show ?thesis by simp
  next
    case (go nm es')
    from fb_inv_add [OF Cons.prems(1) go(1,2,3)]
    have inv': "fb_inv (insert (lower nm) seen) es'" .
    from go(3) Cons.prems(2) have len: "length es' \<le> MAX_ITEMS" by auto
    show ?thesis
    proof (cases "MAX_ITEMS \<le> length es'")
      case True
      with go(4) Cons.prems(3) have "res = es'" by simp
      with inv' len show ?thesis by auto
    next
      case False
      then have lt: "length es' < MAX_ITEMS" by simp
      from go(4) False Cons.prems(3)
      have "headings_loop ip hs (insert (lower nm) seen) es' = Inr res" by simp
      from Cons.IH [OF inv' lt this] show ?thesis .
    qed
  qed
qed

lemma extract_by_headings_inv:
  assumes "extract_by_headings ip soup = Inr res"
  shows "(\<exists>seen. fb_inv seen res) \<and> length res \<le> MAX_ITEMS"
proof -
  have "fb_inv {} []" by (simp add: fb_inv_def)
  moreover have "length ([] :: entry list) < MAX_ITEMS" by (simp add: MAX_ITEMS_def)
  ultimately show ?thesis
    using assms unfolding extract_by_headings_def by (rule headings_loop_inv)
qed

lemma headings_loop_origin:
  "headings_loop ip hs seen entries = Inr res \<Longrightarrow> e \<in> set res \<Longrightarrow>
   e \<in> set entries \<or> (\<exists>h\<in>set hs. \<exists>nm. heading_entry ip h nm = Inr (Some e))"
proof (induction hs arbitrary: seen entries)
  case Nil
  then show ?case by simp
next
  case (Cons h hs)
  show ?case
  proof (cases rule: headings_loop_cases [of ip h hs seen entries])
    case skip
    with Cons.prems Cons.IH [of seen entries] show ?thesis by auto
  next
    case (raise nm err)
    with Cons.prems(1) show ?thesis by simp
  next
    case (go nm es')
    have "e \<in> set es' \<or> (\<exists>h\<in>set hs. \<exists>nm. heading_entry ip h nm = Inr (Some e))"
    proof (cases "MAX_ITEMS \<le> length es'")
      case True
      with go(4) Cons.prems show ?thesis by simp
    next
      case False
      with go(4) Cons.prems(1)
      have "headings_loop ip hs (insert (lower nm) seen) es' = Inr res" by simp
      from Cons.IH [OF this Cons.prems(2)] show ?thesis .
    qed
    with go(3) show ?thesis by auto
  qed
qed


section \<open>When joining raises\<close>

lemma set_before: "set (before d s) \<subseteq> set s"
  by (auto simp: before_def dest: set_takeWhileD)





lemma base_parse:
  "urlparse ip URL [] = Inr (''https'', ''www.timeout.com'',
     ''/london/food-drink/londons-best-cafes-and-coffee-shops'', [], [], [])"
  by code_simp



section \<open>Where links come from\<close>

lemma places_sound:
  "(n, sibs, fol) \<in> set (places ns f) \<Longrightarrow>
   n \<in> set (preorder ns) \<and> set (preorder (kids n)) \<subseteq> set (preorder ns)
   \<and> set (preorder sibs) \<subseteq> set (preorder ns) \<and> set fol \<subseteq> set (preorder ns) \<union> set f"
  by (induction ns f rule: places.induct) auto

lemma places_within:
  assumes "pl \<in> set (places ns f)"
  shows "fst pl \<in> set (preorder ns) \<and> set (next_elements pl) \<subseteq> set (preorder ns) \<union> set f"
proof -
  obtain n sibs fol where pl: "pl = (n, sibs, fol)" by (cases pl)
  from places_sound [OF assms [unfolded pl]] show ?thesis
    by (auto simp: pl next_elements_def)
qed

lemma inside_within:
  assumes mc: "mc \<in> set (places soup [])" and q: "q \<in> set (inside mc)"
  shows "fst q \<in> set (preorder soup) \<and> set (next_elements q) \<subseteq> set (preorder soup)"
proof -
  obtain n sibs fol where m: "mc = (n, sibs, fol)" by (cases mc)
  from places_sound [OF mc [unfolded m]]
  have a: "set (preorder (kids n)) \<subseteq> set (preorder soup)"
    and b: "set (preorder sibs) \<subseteq> set (preorder soup)" and c: "set fol \<subseteq> set (preorder soup)"
    by auto
  from q have "q \<in> set (places (kids n) (preorder sibs @ fol))" by (simp add: inside_def m)
  from places_within [OF this] a b c show ?thesis by auto
qed

lemma find_a_sound:
  assumes "find_a pl = Some a"
  shows "a \<in> set (next_elements pl) \<and> tag a = Some ''a''"
proof -
  from assms have "List.find (named [''a'']) (preorder (kids (fst pl))) = Some a
      \<or> List.find (named [''a'']) (next_elements pl) = Some a"
    by (auto simp: find_a_def find_in_def find_next_def split: option.splits)
  then have "a \<in> set (preorder (kids (fst pl))) \<union> set (next_elements pl) \<and> named [''a''] a"
    by (auto simp: find_Some_iff)
  moreover have "set (preorder (kids (fst pl))) \<subseteq> set (next_elements pl)"
    by (cases pl) (auto simp: next_elements_def)
  ultimately show ?thesis by (auto simp: named_def split: option.splits)
qed

lemma main_content_place: "main_content soup = Some mc \<Longrightarrow> mc \<in> set (places soup [])"
  by (auto simp: main_content_def soup_find_def find_Some_iff split: option.splits)

lemma find_all_within:
  assumes "main_content soup = Some mc" and "pl \<in> set (find_all mc names)"
  shows "fst pl \<in> set (preorder soup) \<and> set (next_elements pl) \<subseteq> set (preorder soup)"
  using inside_within [OF main_content_place [OF assms(1)], of pl] assms(2)
  by (simp add: find_all_def)

lemma soup_find_all_within:
  assumes "h \<in> set (soup_find_all soup names)"
  shows "set (next_elements h) \<subseteq> set (preorder soup)"
proof -
  from assms have "h \<in> set (places soup [])" by (simp add: soup_find_all_def)
  from places_within [OF this] show ?thesis by simp
qed

text \<open>
  One turn of the search for a link: the element is passed over, or the search ends with
  what \<open>urljoin\<close> gives for the \<open>href\<close> of the element, an anchor, or for the \<open>href\<close> of the
  anchor found in it or after it.
\<close>

lemma find_link_cases:
  obtains (pass) "find_link ip nm (elem # elems) = find_link ip nm elems"
  | (own) href where "tag (fst elem) = Some ''a''" "attr (fst elem) ''href'' = Some href"
      "href \<noteq> []" "find_link ip nm (elem # elems) = urljoin ip URL href"
  | (near) a href where "find_a elem = Some a" "attr a ''href'' = Some href"
      "href \<noteq> []" "find_link ip nm (elem # elems) = urljoin ip URL href"
proof -
  define own where "own = (if tag (fst elem) = Some ''a''
                 then (case attr (fst elem) ''href'' of None \<Rightarrow> [] | Some href \<Rightarrow> href)
                 else [])"
  show ?thesis
  proof (cases "own \<noteq> []
      \<and> (contains (lower nm) (lower (get_text [] (fst elem)))
          \<or> contains (lower (get_text [] (fst elem))) (lower nm))")
    case True
    then have "find_link ip nm (elem # elems) = urljoin ip URL own"
      by (simp add: Let_def own_def)
    moreover from True have "tag (fst elem) = Some ''a''" "attr (fst elem) ''href'' = Some own"
      by (auto simp: own_def split: if_splits option.splits)
    ultimately show ?thesis using True by (intro own [of own]) auto
  next
    case False
    then have eq: "find_link ip nm (elem # elems) =
        (if contains (lower nm) (lower (get_text [] (fst elem)))
            \<or> contains (lower (get_text [] (fst elem))) (lower nm)
         then (case find_a elem of
                 None \<Rightarrow> find_link ip nm elems
               | Some link \<Rightarrow>
                   (case attr link ''href'' of
                      None \<Rightarrow> find_link ip nm elems
                    | Some href \<Rightarrow>
                        if href \<noteq> [] \<and> (contains ''/venue/'' href
                             \<or> contains (replace_c CHR '' '' CHR ''-'' (lower nm)) (lower href))
                        then urljoin ip URL href
                        else find_link ip nm elems))
         else find_link ip nm elems)"
      by (auto simp: Let_def own_def)
    show ?thesis
    proof (cases "find_link ip nm (elem # elems) = find_link ip nm elems")
      case True
      then show ?thesis by (rule pass)
    next
      case False
      with eq obtain a href where "find_a elem = Some a" "attr a ''href'' = Some href"
        "href \<noteq> []" "find_link ip nm (elem # elems) = urljoin ip URL href"
        by (auto split: if_splits option.splits)
      then show ?thesis by (rule near)
    qed
  qed
qed

lemma anchor_linkI:
  "a \<in> set (preorder soup) \<Longrightarrow> tag a = Some ''a'' \<Longrightarrow> attr a ''href'' = Some href \<Longrightarrow>
   href \<noteq> [] \<Longrightarrow> urljoin ip URL href = Inr link \<Longrightarrow> anchor_link ip soup link"
  by (auto simp: anchor_link_def list_ex_iff intro!: bexI [of _ a])


lemma find_link_anchor:
  assumes "\<forall>pl\<in>set elems. fst pl \<in> set (preorder soup) \<and> set (next_elements pl) \<subseteq> set (preorder soup)"
    and "find_link ip nm elems = Inr link"
  shows "anchor_link ip soup link"
  using assms
proof (induction elems)
  case Nil
  then show ?case by (simp add: anchor_link_def)
next
  case (Cons elem elems)
  from Cons.prems(1) have here: "fst elem \<in> set (preorder soup)"
    and nxt: "set (next_elements elem) \<subseteq> set (preorder soup)" by auto
  show ?case
  proof (cases rule: find_link_cases [of ip nm elem elems])
    case pass
    with Cons show ?thesis by simp
  next
    case (own href)
    with Cons.prems(2) here show ?thesis by (auto intro: anchor_linkI)
  next
    case (near a href)
    with Cons.prems(2) find_a_sound [OF near(1)] nxt show ?thesis by (auto intro: anchor_linkI)
  qed
qed



lemma heading_entry_anchor:
  assumes "heading_entry ip h nm = Inr (Some e)" and "set (next_elements h) \<subseteq> set (preorder soup)"
  shows "anchor_link ip soup (source_link e)"
proof -
  have far: "anchor_link ip soup link"
    if "find_a h = Some a" "attr a ''href'' = Some href" "href \<noteq> []"
       "urljoin ip URL href = Inr link" for a href link
    using find_a_sound [OF that(1)] assms(2) that(2,3,4) by (auto intro: anchor_linkI)
  have nil: "anchor_link ip soup []" by (simp add: anchor_link_def)
  from assms(1) show ?thesis
    using far nil
    by (auto simp: heading_entry_def Let_def split: if_splits option.splits sum.splits)
qed


lemma fallback_links:
  assumes "extract_by_headings ip soup = Inr es" and "e \<in> set es"
  shows "anchor_link ip soup (source_link e)"
proof -
  from headings_loop_origin [OF assms(1) [unfolded extract_by_headings_def] assms(2)]
  obtain h nm where h: "h \<in> set (soup_find_all soup [''h2'', ''h3'', ''h4''])"
    and e: "heading_entry ip h nm = Inr (Some e)" by auto
  from heading_entry_anchor [OF e soup_find_all_within [OF h]] show ?thesis .
qed


lemma in_order_member:
  "in_order rs = Inr xs \<Longrightarrow> x \<in> set xs \<Longrightarrow> Inr x \<in> set rs"
  by (auto dest!: in_order_Inr)

lemma primary_links:
  assumes mc: "main_content soup = Some mc"
    and es: "entries_of_text ip (find_all mc names) text = Inr es" and e: "e \<in> set es"
  shows "anchor_link ip soup (source_link e)"
proof -
  from in_order_member [OF es [unfolded entries_of_text_closed] e]
  have "Inr e \<in> set (map (candidate ip (find_all mc names))
                       (filter valid_segment (split_ahead MARKER text)))"
    by (rule in_set_takeD)
  then obtain seg where c: "candidate ip (find_all mc names) seg = Inr e" by auto
  then obtain link where l: "find_link ip (name (parse_entry seg)) (find_all mc names) = Inr link"
    and s: "source_link e = link"
    by (auto simp: candidate_def split: sum.splits)
  have "\<forall>pl\<in>set (find_all mc names).
      fst pl \<in> set (preorder soup) \<and> set (next_elements pl) \<subseteq> set (preorder soup)"
    using find_all_within [OF mc] by blast
  from find_link_anchor [OF this l] s show ?thesis by simp
qed


lemma article_links:
  assumes "fst (extract_article_entries ip soup) = Inr es" and "e \<in> set es"
  shows "anchor_link ip soup (source_link e)"
proof (cases "main_content soup")
  case None
  with assms show ?thesis by (auto simp: extract_article_entries_def)
next
  case (Some mc)
  show ?thesis
  proof (cases "entries_of_text ip (find_all mc [''h2'', ''h3'', ''h4'', ''a'']) (full_text mc)")
    case (Inl err)
    with assms Some show ?thesis by (simp add: extract_article_entries_def)
  next
    case (Inr found)
    show ?thesis
    proof (cases "found = []")
      case True
      with assms Some Inr obtain fb where fb: "extract_by_headings ip soup = Inr fb"
        and "es = take MAX_ITEMS fb"
        by (auto simp: extract_article_entries_def split: sum.splits)
      with assms(2) have "e \<in> set fb" by (auto dest: in_set_takeD)
      from fallback_links [OF fb this] show ?thesis .
    next
      case False
      with assms Some Inr have "es = take MAX_ITEMS found"
        by (auto simp: extract_article_entries_def)
      with assms(2) have "e \<in> set found" by (auto dest: in_set_takeD)
      from primary_links [OF Some Inr this] show ?thesis .
    qed
  qed
qed



section \<open>Links against the article's URL\<close>

lemma origin_eval: "article_origin = ''https://www.timeout.com''"
  by code_simp

lemma urlunparse_shape:
  assumes "n \<noteq> []" "s \<noteq> []"
  shows "\<exists>rest. urlunparse (s, n, u, p, q, f) = s @ ''://'' @ n @ rest
           \<and> (case rest of [] \<Rightarrow> True | c # cs \<Rightarrow> c \<in> set ''/?#'')"
proof -
  define url0 where "url0 = (if p \<noteq> [] then u @ '';'' @ p else u)"
  define r0 where "r0 = (if url0 \<noteq> [] \<and> take 1 url0 \<noteq> ''/'' then ''/'' @ url0 else url0)"
  define r1 where "r1 = (if q \<noteq> [] then r0 @ ''?'' @ q else r0)"
  define r2 where "r2 = (if f \<noteq> [] then r1 @ ''#'' @ f else r1)"
  have eq: "urlunparse (s, n, u, p, q, f) = s @ ''://'' @ n @ r2"
    using assms by (simp add: urlunparse_def urlunsplit_def Let_def url0_def r0_def r1_def r2_def)
  have h0: "case r0 of [] \<Rightarrow> True | c # cs \<Rightarrow> c = CHR ''/''"
    by (cases url0) (auto simp: r0_def)
  have h1: "case r1 of [] \<Rightarrow> True | c # cs \<Rightarrow> c \<in> set ''/?#''"
    using h0 by (cases r0) (auto simp: r1_def)
  have h2: "case r2 of [] \<Rightarrow> True | c # cs \<Rightarrow> c \<in> set ''/?#''"
    using h1 by (cases r1) (auto simp: r2_def)
  from eq h2 show ?thesis by blast
qed

lemma anchored_unparse: "anchored (urlunparse (''https'', ''www.timeout.com'', u, p, q, f))"
proof -
  from urlunparse_shape [of "''www.timeout.com''" "''https''" u p q f]
  obtain rest where eq: "urlunparse (''https'', ''www.timeout.com'', u, p, q, f)
      = ''https'' @ ''://'' @ ''www.timeout.com'' @ rest"
    and h: "case rest of [] \<Rightarrow> True | c # cs \<Rightarrow> c \<in> set ''/?#''" by auto
  have "urlunparse (''https'', ''www.timeout.com'', u, p, q, f) = ''https://www.timeout.com'' @ rest"
    unfolding eq by simp
  with h show ?thesis by (simp add: anchored_def origin_eval)
qed

lemma https_relative: "''https'' \<in> set uses_relative" "''https'' \<in> set uses_netloc"
  by (simp_all add: uses_relative_def uses_netloc_def)

lemma urljoin_parsed:
  assumes "href \<noteq> []"
  shows "urljoin ip URL href =
     (case urlparse ip href ''https'' of
        Inl err \<Rightarrow> Inl err
      | Inr parts \<Rightarrow> Inr (join_parsed href (''https'', ''www.timeout.com'',
           ''/london/food-drink/londons-best-cafes-and-coffee-shops'', [], [], []) parts))"
proof -
  have u: "URL \<noteq> []" by (simp add: URL_def)
  show ?thesis using assms u by (simp add: urljoin_def base_parse)
qed

text \<open>An \<open>href\<close> without a scheme of its own and without a host\<close>

lemma urljoin_relative:
  assumes "href \<noteq> []"
    and "urlparse ip href ''https'' = Inr (''https'', [], path, params, query, fragment)"
  shows "\<exists>link. urljoin ip URL href = Inr link \<and> anchored link"
  using https_relative
  by (simp add: urljoin_parsed [OF assms(1)] assms(2) join_parsed_def Let_def anchored_unparse
        del: set_simps)

text \<open>An \<open>href\<close> with another scheme\<close>

lemma urljoin_other_scheme:
  assumes "href \<noteq> []"
    and "urlparse ip href ''https'' = Inr (scheme, netloc, path, params, query, fragment)"
    and "scheme \<noteq> ''https''"
  shows "urljoin ip URL href = Inr href"
  using assms(3) by (simp add: urljoin_parsed [OF assms(1)] assms(2) join_parsed_def)

text \<open>An \<open>href\<close> with the scheme of the article, or none, and a host\<close>

lemma urljoin_host:
  assumes "href \<noteq> []"
    and "urlparse ip href ''https'' = Inr (''https'', netloc, path, params, query, fragment)"
    and "netloc \<noteq> []"
  shows "\<exists>rest. urljoin ip URL href = Inr (''https://'' @ netloc @ rest)
           \<and> (case rest of [] \<Rightarrow> True | c # cs \<Rightarrow> c \<in> set ''/?#'')"
proof -
  from urlunparse_shape [OF assms(3), of "''https''" path params query fragment]
  obtain rest where eq: "urlunparse (''https'', netloc, path, params, query, fragment)
      = ''https'' @ ''://'' @ netloc @ rest"
    and h: "case rest of [] \<Rightarrow> True | c # cs \<Rightarrow> c \<in> set ''/?#''" by auto
  have "urljoin ip URL href = Inr (urlunparse (''https'', netloc, path, params, query, fragment))"
    using https_relative assms(3)
    by (simp add: urljoin_parsed [OF assms(1)] assms(2) join_parsed_def del: set_simps)
  with eq have "urljoin ip URL href = Inr (''https://'' @ netloc @ rest)" by simp
  with h show ?thesis by blast
qed

lemma urljoin_raises:
  assumes "href \<noteq> []" and "urlparse ip href ''https'' = Inl err"
  shows "urljoin ip URL href = Inl err"
  by (simp add: urljoin_parsed [OF assms(1)] assms(2))

section \<open>The sample inputs, evaluated\<close>

lemma split_A: "split_ahead MARKER scenario_A = [head_A, segment_A]"
  by code_simp

lemma parse_A:
  "parse_entry segment_A = \<lparr>name = ''A cosy nook.'', description = ''A cosy nook.'',
     address = ''12 High St'', opening_hours = ''9-5 daily'', source_link = []\<rparr>"
  by code_simp

lemma marker_A:
  "contains MARKER head_A = False" "contains MARKER segment_A = True"
  by code_simp+

lemma valid_A: "filter valid_segment (split_ahead MARKER scenario_A) = [segment_A]"
  by (simp add: split_A valid_segment_def marker_A parse_A)

lemma entries_A:
  "entries_of_text ip elems scenario_A =
     (case find_link ip ''A cosy nook.'' elems of
        Inl err \<Rightarrow> Inl err
      | Inr link \<Rightarrow>
          Inr [\<lparr>name = ''A cosy nook.'', description = ''A cosy nook.'', address = ''12 High St'',
                opening_hours = ''9-5 daily'', source_link = link\<rparr>])"
  by (simp add: entries_of_text_closed valid_A candidate_def parse_A MAX_ITEMS_def
        split: sum.splits)

lemma eval_doc_A:
  "extract_article_entries ip doc_A =
     (Inr [\<lparr>name = ''A cosy nook.'', description = ''A cosy nook.'', address = ''12 High St'',
        opening_hours = ''9-5 daily'', source_link = []\<rparr>], [])"
  by code_simp





lemma eval_twice:
  "extract_by_headings ip doc_twice =
     Inr [\<lparr>name = ''Bean Bar'', description = long_text, address = [], opening_hours = [],
       source_link = []\<rparr>]"
  by code_simp

lemma eval_one_word: "extract_by_headings ip doc_one_word = Inr []"
  by code_simp

lemma eval_region: "main_content doc_twice = Some (body_twice, [], [])"
  by code_simp

lemma eval_region_text: "contains MARKER (full_text (body_twice, [], [])) = False"
  by code_simp

lemma eval_no_region: "main_content doc_no_region = None"
  by code_simp

lemma eval_no_region_text: "contains MARKER (soup_text doc_no_region) = False"
  by code_simp

lemma eval_no_region_fb:
  "extract_by_headings ip doc_no_region =
     Inr [\<lparr>name = ''The Gallery Room'', description = long_text, address = [],
       opening_hours = [], source_link = []\<rparr>]"
  by code_simp

lemma eval_external:
  "fst (extract_article_entries ip doc_external) =
     Inr [\<lparr>name = ''The Gallery Room'', description = long_text, address = [], opening_hours = [],
       source_link = ''http://example.com/venue/gallery''\<rparr>]"
  by code_simp

lemma eval_not_anchored: "anchored ''http://example.com/venue/gallery'' = False"
  by code_simp

lemma eval_parse:
  "urlparse ip ''/london/venue/bean-bar'' ''https''
     = Inr (''https'', [], ''/london/venue/bean-bar'', [], [], [])"
  "urlparse ip ''http://example.com/venue/gallery'' ''https''
     = Inr (''http'', ''example.com'', ''/venue/gallery'', [], [], [])"
  "urlparse ip ''//example.com/venue/gallery'' ''https''
     = Inr (''https'', ''example.com'', ''/venue/gallery'', [], [], [])"
  "urlparse ip ''//[x'' ''https'' = Inl ValueError"
  by code_simp+

lemma eval_join:
  "urljoin ip URL ''/london/venue/bean-bar'' = Inr ''https://www.timeout.com/london/venue/bean-bar''"
  "urljoin ip URL ''//example.com/venue/gallery'' = Inr ''https://example.com/venue/gallery''"
  by code_simp+


section \<open>Scenario A\<close>

text \<open>
  C1, on the code. The split cuts before the marker, so the line with the venue's name
  ends the piece before the segment and the scan for a name reads the lines after the
  marker: the one candidate of scenario A has the first line of the description as its
  name. Description, address and opening hours are those of the scenario. The link is
  what the search over the given headings and anchors finds, empty when there are none.
  The same holds for the page that has the text in one paragraph.
\<close>

theorem scenario_A_result:
  "entries_of_text ip elems scenario_A =
     (case find_link ip ''A cosy nook.'' elems of
        Inl err \<Rightarrow> Inl err
      | Inr link \<Rightarrow>
          Inr [\<lparr>name = ''A cosy nook.'', description = ''A cosy nook.'', address = ''12 High St'',
                opening_hours = ''9-5 daily'', source_link = link\<rparr>])
   \<and> entries_of_text ip [] scenario_A =
       Inr [\<lparr>name = ''A cosy nook.'', description = ''A cosy nook.'', address = ''12 High St'',
             opening_hours = ''9-5 daily'', source_link = []\<rparr>]
   \<and> fst (extract_article_entries ip doc_A) =
       Inr [\<lparr>name = ''A cosy nook.'', description = ''A cosy nook.'', address = ''12 High St'',
             opening_hours = ''9-5 daily'', source_link = []\<rparr>]"
  using entries_A [of ip elems] entries_A [of ip "[]"] by (simp add: eval_doc_A)

section \<open>The names of the fallback extractor\<close>

text \<open>
  C4. No two candidates that the fallback extractor returns have the same name up to
  case: a heading whose lowered name is among the keys seen is skipped.
\<close>

theorem fallback_names_distinct:
  "extract_by_headings ip soup = Inr es \<Longrightarrow> distinct (map (\<lambda>e. lower (name e)) es)"
  using extract_by_headings_inv [of ip soup es] by (auto simp: fb_inv_def)

theorem fallback_names_distinct_witness:
  "\<forall>ip. extract_by_headings ip doc_twice =
          Inr [\<lparr>name = ''Bean Bar'', description = long_text, address = [], opening_hours = [],
                source_link = []\<rparr>]
     \<and> distinct (map (\<lambda>e. lower (name e))
          [\<lparr>name = ''Bean Bar'', description = long_text, address = [], opening_hours = [],
            source_link = []\<rparr>])"
proof
  fix ip
  from eval_twice [of ip]
  have "distinct (map (\<lambda>e. lower (name e))
          [\<lparr>name = ''Bean Bar'', description = long_text, address = [], opening_hours = [],
            source_link = []\<rparr>])"
    by (rule fallback_names_distinct)
  with eval_twice [of ip]
  show "extract_by_headings ip doc_twice =
          Inr [\<lparr>name = ''Bean Bar'', description = long_text, address = [], opening_hours = [],
                source_link = []\<rparr>]
     \<and> distinct (map (\<lambda>e. lower (name e))
          [\<lparr>name = ''Bean Bar'', description = long_text, address = [], opening_hours = [],
            source_link = []\<rparr>])"
    by (rule conjI)
qed

text \<open>
  C10. Every candidate that the fallback extractor returns has a name of at least two
  words: a heading whose name, after the ordinal prefix is removed, has fewer is skipped,
  so a heading of one word gives no candidate.
\<close>

theorem fallback_needs_two_words:
  "extract_by_headings ip soup = Inr es \<Longrightarrow> \<forall>e\<in>set es. 2 \<le> length (split_ws (name e))"
  using extract_by_headings_inv [of ip soup es] by (auto simp: fb_inv_def list_all_iff)

theorem fallback_needs_two_words_witness:
  "\<forall>ip. extract_by_headings ip doc_twice =
          Inr [\<lparr>name = ''Bean Bar'', description = long_text, address = [], opening_hours = [],
                source_link = []\<rparr>]
     \<and> 2 \<le> length (split_ws ''Bean Bar'')
     \<and> extract_by_headings ip doc_one_word = Inr []"
proof
  fix ip
  let ?e = "\<lparr>name = ''Bean Bar'', description = long_text, address = [], opening_hours = [],
              source_link = []\<rparr>"
  from fallback_needs_two_words [OF eval_twice [of ip]]
  have "2 \<le> length (split_ws (name ?e))" by simp
  then show "extract_by_headings ip doc_twice = Inr [?e]
     \<and> 2 \<le> length (split_ws ''Bean Bar'')
     \<and> extract_by_headings ip doc_one_word = Inr []"
    by (simp add: eval_twice eval_one_word)
qed

section \<open>The bound and the count\<close>







section \<open>When the fallback runs\<close>

text \<open>
  C3, as the code has it. In a document that has a content region (a main, article or
  body element) whose joined text has no marker, the primary extractor returns no
  candidate, the record of the fallback is logged and the outcome is that of the fallback
  extractor: its candidates, or its exception. That record is logged only when there is
  a content region and the primary extractor returns no candidate.
\<close>

theorem no_marker_fallback:
  "(main_content soup = Some mc \<and> \<not> contains MARKER (full_text mc) \<longrightarrow>
      entries_of_text ip (find_all mc [''h2'', ''h3'', ''h4'', ''a'']) (full_text mc) = Inr []
      \<and> extract_article_entries ip soup =
          (case extract_by_headings ip soup of
             Inl err \<Rightarrow> Inl err
           | Inr found \<Rightarrow> Inr (take MAX_ITEMS found),
           [LogInfo ''Pattern-based extraction failed, trying heading-based method'']))
   \<and> (LogInfo ''Pattern-based extraction failed, trying heading-based method''
         \<in> set (snd (extract_article_entries ip soup)) \<longrightarrow>
       (\<exists>mc. main_content soup = Some mc
          \<and> entries_of_text ip (find_all mc [''h2'', ''h3'', ''h4'', ''a'']) (full_text mc) = Inr []))"
  by (auto simp: extract_article_entries_def Let_def no_marker_no_entries
        split: option.splits if_splits sum.splits)

theorem no_marker_fallback_witness:
  "\<forall>ip. main_content doc_twice = Some (body_twice, [], [])
     \<and> contains MARKER (full_text (body_twice, [], [])) = False
     \<and> entries_of_text ip (find_all (body_twice, [], []) [''h2'', ''h3'', ''h4'', ''a''])
         (full_text (body_twice, [], [])) = Inr []
     \<and> extract_article_entries ip doc_twice =
         (Inr [\<lparr>name = ''Bean Bar'', description = long_text, address = [], opening_hours = [],
                source_link = []\<rparr>],
          [LogInfo ''Pattern-based extraction failed, trying heading-based method''])"
proof
  fix ip
  from no_marker_fallback [of doc_twice "(body_twice, [], [])" ip]
  show "main_content doc_twice = Some (body_twice, [], [])
     \<and> contains MARKER (full_text (body_twice, [], [])) = False
     \<and> entries_of_text ip (find_all (body_twice, [], []) [''h2'', ''h3'', ''h4'', ''a''])
         (full_text (body_twice, [], [])) = Inr []
     \<and> extract_article_entries ip doc_twice =
         (Inr [\<lparr>name = ''Bean Bar'', description = long_text, address = [], opening_hours = [],
                source_link = []\<rparr>],
          [LogInfo ''Pattern-based extraction failed, trying heading-based method''])"
    by (simp add: eval_region eval_region_text eval_twice MAX_ITEMS_def)
qed

text \<open>
  C3, as the claim states it, fails on a document without a content region: nothing in
  it has the marker, yet \<open>extract_article_entries\<close> logs the missing region and returns
  at once, without the fallback extractor, which has a candidate for this document.
\<close>

theorem no_region_no_fallback:
  "\<forall>ip. \<not> contains MARKER (soup_text doc_no_region)
     \<and> extract_article_entries ip doc_no_region
         = (Inr [], [LogError ''Could not find main content area''])
     \<and> extract_by_headings ip doc_no_region =
         Inr [\<lparr>name = ''The Gallery Room'', description = long_text, address = [],
               opening_hours = [], source_link = []\<rparr>]"
  by (simp add: eval_no_region eval_no_region_text eval_no_region_fb extract_article_entries_def)

section \<open>The links of the candidates\<close>

text \<open>
  C6, as the code has it. The link of every candidate that either extractor returns is
  empty or is what \<open>urljoin\<close> returns for the article's URL and the non-empty \<open>href\<close> of
  an anchor of the document. For a non-empty \<open>href\<close> that \<open>urlparse\<close> splits, with the
  scheme of the article as the default: when the scheme is \<open>https\<close> and there is no host,
  \<open>urljoin\<close> returns a link that starts with the scheme and the host of the article's
  URL; when the scheme is \<open>https\<close> and there is a host, it returns \<open>https://\<close>, that host,
  and then nothing or a text that starts with a slash, a question mark or a hash; when the
  scheme is another one, it returns the \<open>href\<close> as it is. When \<open>urlparse\<close> raises on the
  \<open>href\<close>, \<open>urljoin\<close> raises the same exception.
\<close>

theorem links_resolved:
  "(fst (extract_article_entries ip soup) = Inr res \<longrightarrow>
      (\<forall>e\<in>set res. anchor_link ip soup (source_link e)))
   \<and> (extract_by_headings ip soup = Inr fb \<longrightarrow>
        (\<forall>e\<in>set fb. anchor_link ip soup (source_link e)))
   \<and> (main_content soup = Some mc
        \<and> entries_of_text ip (find_all mc [''h2'', ''h3'', ''h4'', ''a'']) (full_text mc) = Inr pr
       \<longrightarrow> (\<forall>e\<in>set pr. anchor_link ip soup (source_link e)))
   \<and> (href \<noteq> [] \<and> urlparse ip href ''https'' = Inr (''https'', [], path, params, query, fragment)
       \<longrightarrow> (\<exists>link. urljoin ip URL href = Inr link \<and> anchored link))
   \<and> (href \<noteq> [] \<and> urlparse ip href ''https'' = Inr (''https'', netloc, path, params, query, fragment)
        \<and> netloc \<noteq> []
       \<longrightarrow> (\<exists>rest. urljoin ip URL href = Inr (''https://'' @ netloc @ rest)
                \<and> (case rest of [] \<Rightarrow> True | c # cs \<Rightarrow> c \<in> set ''/?#'')))
   \<and> (href \<noteq> [] \<and> urlparse ip href ''https'' = Inr (scheme, netloc, path, params, query, fragment)
        \<and> scheme \<noteq> ''https''
       \<longrightarrow> urljoin ip URL href = Inr href)
   \<and> (href \<noteq> [] \<and> urlparse ip href ''https'' = Inl err \<longrightarrow> urljoin ip URL href = Inl err)"
proof -
  have a: "fst (extract_article_entries ip soup) = Inr res \<longrightarrow>
      (\<forall>e\<in>set res. anchor_link ip soup (source_link e))"
    using article_links by blast
  have b: "extract_by_headings ip soup = Inr fb \<longrightarrow>
        (\<forall>e\<in>set fb. anchor_link ip soup (source_link e))"
    using fallback_links by blast
  have c: "main_content soup = Some mc
        \<and> entries_of_text ip (find_all mc [''h2'', ''h3'', ''h4'', ''a'']) (full_text mc) = Inr pr
       \<longrightarrow> (\<forall>e\<in>set pr. anchor_link ip soup (source_link e))"
    using primary_links by blast
  have d: "href \<noteq> [] \<and> urlparse ip href ''https'' = Inr (''https'', [], path, params, query, fragment)
       \<longrightarrow> (\<exists>link. urljoin ip URL href = Inr link \<and> anchored link)"
    using urljoin_relative by blast
  have e: "href \<noteq> [] \<and> urlparse ip href ''https'' = Inr (''https'', netloc, path, params, query, fragment)
        \<and> netloc \<noteq> []
       \<longrightarrow> (\<exists>rest. urljoin ip URL href = Inr (''https://'' @ netloc @ rest)
                \<and> (case rest of [] \<Rightarrow> True | c # cs \<Rightarrow> c \<in> set ''/?#''))"
    using urljoin_host by blast
  have f: "href \<noteq> [] \<and> urlparse ip href ''https'' = Inr (scheme, netloc, path, params, query, fragment)
        \<and> scheme \<noteq> ''https''
       \<longrightarrow> urljoin ip URL href = Inr href"
    using urljoin_other_scheme by blast
  have g: "href \<noteq> [] \<and> urlparse ip href ''https'' = Inl err \<longrightarrow> urljoin ip URL href = Inl err"
    using urljoin_raises by blast
  from a b c d e f g show ?thesis by (intro conjI)
qed

theorem links_resolved_witness:
  "\<forall>ip. fst (extract_article_entries ip doc_external) =
         Inr [\<lparr>name = ''The Gallery Room'', description = long_text, address = [],
               opening_hours = [], source_link = ''http://example.com/venue/gallery''\<rparr>]
     \<and> anchor_link ip doc_external ''http://example.com/venue/gallery''
     \<and> urlparse ip ''http://example.com/venue/gallery'' ''https''
         = Inr (''http'', ''example.com'', ''/venue/gallery'', [], [], [])
     \<and> urljoin ip URL ''http://example.com/venue/gallery'' = Inr ''http://example.com/venue/gallery''
     \<and> urlparse ip ''/london/venue/bean-bar'' ''https''
         = Inr (''https'', [], ''/london/venue/bean-bar'', [], [], [])
     \<and> urljoin ip URL ''/london/venue/bean-bar'' = Inr ''https://www.timeout.com/london/venue/bean-bar''
     \<and> anchored ''https://www.timeout.com/london/venue/bean-bar''
     \<and> urlparse ip ''//example.com/venue/gallery'' ''https''
         = Inr (''https'', ''example.com'', ''/venue/gallery'', [], [], [])
     \<and> urljoin ip URL ''//example.com/venue/gallery'' = Inr ''https://example.com/venue/gallery''
     \<and> urlparse ip ''//[x'' ''https'' = Inl ValueError
     \<and> urljoin ip URL ''//[x'' = Inl ValueError"
proof
  fix ip
  let ?G = "\<lparr>name = ''The Gallery Room'', description = long_text, address = [],
               opening_hours = [], source_link = ''http://example.com/venue/gallery''\<rparr>"
  from links_resolved [where ip = ip and soup = doc_external and res = "[?G]"] eval_external [of ip]
  have "\<forall>e\<in>set [?G]. anchor_link ip doc_external (source_link e)" by blast
  then have a: "anchor_link ip doc_external ''http://example.com/venue/gallery''" by simp
  from links_resolved [where ip = ip and href = "''http://example.com/venue/gallery''"
      and scheme = "''http''" and netloc = "''example.com''" and path = "''/venue/gallery''"
      and params = "[]" and query = "[]" and fragment = "[]"] eval_parse(2) [of ip]
  have b: "urljoin ip URL ''http://example.com/venue/gallery'' = Inr ''http://example.com/venue/gallery''"
    by simp
  from links_resolved [where ip = ip and href = "''/london/venue/bean-bar''"
      and path = "''/london/venue/bean-bar''"
      and params = "[]" and query = "[]" and fragment = "[]"] eval_parse(1) [of ip]
  have "\<exists>link. urljoin ip URL ''/london/venue/bean-bar'' = Inr link \<and> anchored link"
    by simp
  then have c: "anchored ''https://www.timeout.com/london/venue/bean-bar''"
    by (simp add: eval_join)
  from links_resolved [where ip = ip and href = "''//[x''" and err = ValueError] eval_parse(4) [of ip]
  have d: "urljoin ip URL ''//[x'' = Inl ValueError" by simp
  from a b c d show "fst (extract_article_entries ip doc_external) = Inr [?G]
     \<and> anchor_link ip doc_external ''http://example.com/venue/gallery''
     \<and> urlparse ip ''http://example.com/venue/gallery'' ''https''
         = Inr (''http'', ''example.com'', ''/venue/gallery'', [], [], [])
     \<and> urljoin ip URL ''http://example.com/venue/gallery'' = Inr ''http://example.com/venue/gallery''
     \<and> urlparse ip ''/london/venue/bean-bar'' ''https''
         = Inr (''https'', [], ''/london/venue/bean-bar'', [], [], [])
     \<and> urljoin ip URL ''/london/venue/bean-bar'' = Inr ''https://www.timeout.com/london/venue/bean-bar''
     \<and> anchored ''https://www.timeout.com/london/venue/bean-bar''
     \<and> urlparse ip ''//example.com/venue/gallery'' ''https''
         = Inr (''https'', ''example.com'', ''/venue/gallery'', [], [], [])
     \<and> urljoin ip URL ''//example.com/venue/gallery'' = Inr ''https://example.com/venue/gallery''
     \<and> urlparse ip ''//[x'' ''https'' = Inl ValueError
     \<and> urljoin ip URL ''//[x'' = Inl ValueError"
    by (simp add: eval_external eval_parse eval_join)
qed

text \<open>
  C6, as the claim states it, fails: an \<open>href\<close> that is an absolute URL on another scheme
  and host and has the venue marker in its path is accepted, and the link of the
  candidate is that \<open>href\<close>, which does not start with the scheme and the host of the
  article's URL.
\<close>

theorem external_link_kept:
  "\<forall>ip. fst (extract_article_entries ip doc_external) =
         Inr [\<lparr>name = ''The Gallery Room'', description = long_text, address = [],
               opening_hours = [], source_link = ''http://example.com/venue/gallery''\<rparr>]
     \<and> ''http://example.com/venue/gallery'' \<noteq> []
     \<and> \<not> anchored ''http://example.com/venue/gallery''"
  by (simp add: eval_external eval_not_anchored)
end
